theory Spec2Isabelle
  imports Main "HOL-Library.Sublist"
begin

section \<open>The cat plugin: data model\<close>

text \<open>
  The development follows \<^verbatim>\<open>pkg/plugins/cat/cat.go\<close>. Go strings are byte
  sequences and are modelled as \<^typ>\<open>string\<close>. A Go \<^verbatim>\<open>error\<close> is modelled by
  its message, and a result \<^verbatim>\<open>(string, error)\<close> by a sum whose left side is the
  error. Every function that talks to the outside returns, next to its result, the list
  of outside calls it made, in the order it made them.
\<close>

type_synonym error = string

datatype event =
    ReadFile string
  | HttpGet string
  | SizeCheck string
  | LogError string error
  | CallSetKey
  | CallReadCat string bool
  | CallCreateComment string string int bool string

text \<open>
  The functions of the Go standard library that the plugin calls and that only compute:
  \<^verbatim>\<open>url.QueryEscape\<close>, \<^verbatim>\<open>url.Parse\<close> followed by the \<^verbatim>\<open>%s\<close> rendering of the
  parsed URL (its \<^verbatim>\<open>String()\<close>), \<^verbatim>\<open>strings.TrimSpace\<close>, and the JSON decoding of a
  response body into \<^verbatim>\<open>[]catResult\<close>. They are parameters of the model.
\<close>

record catResult =
  Image :: string

record stdlib =
  url_QueryEscape :: "string \<Rightarrow> string"
  url_Parse :: "string \<Rightarrow> error + string"
  strings_TrimSpace :: "string \<Rightarrow> string"
  json_Decode :: "string \<Rightarrow> error + catResult list"

text \<open>
  What the outside answers during one call: the successive readings of the clock
  (\<^verbatim>\<open>time.Now()\<close>, in nanoseconds on one time line), the content of a file, the
  status code and body of an HTTP GET, and the verdict of
  \<^verbatim>\<open>scmprovider.ImageTooBig\<close>, whose code is in another package and which returns a
  flag together with an error.
\<close>

record world =
  time_Now :: "nat \<Rightarrow> int"
  os_ReadFile :: "string \<Rightarrow> error + string"
  http_Get :: "string \<Rightarrow> error + (int \<times> string)"
  ImageTooBig :: "string \<Rightarrow> bool \<times> error option"

text \<open>
  The struct \<^verbatim>\<open>realClowder\<close>. Its lock is left out: the model runs one call at a
  time, which is what the lock enforces for \<^verbatim>\<open>setKey\<close>.
\<close>

record realClowder =
  url :: string
  update :: int
  key :: string
  keyPath :: string

definition minute :: int where
  "minute = 60000000000"

definition grumpyURL :: string where
  "grumpyURL = ''https://upload.wikimedia.org/wikipedia/commons/e/ee/Grumpy_Cat_by_Gage_Skidmore.jpg''"

definition meow :: realClowder where
  "meow = \<lparr> url = ''https://api.thecatapi.com/v1/images/search?format=json&results_per_page=1'',
            update = 0, key = [], keyPath = [] \<rparr>"

subsection \<open>Decimal rendering, for the \<^verbatim>\<open>%d\<close> verb\<close>

fun show_nat :: "nat \<Rightarrow> string" where
  "show_nat n =
     (if n < 10 then [''0123456789'' ! n]
      else show_nat (n div 10) @ [''0123456789'' ! (n mod 10)])"

definition show_int :: "int \<Rightarrow> string" where
  "show_int i = (if i < 0 then CHR ''-'' # show_nat (nat (- i)) else show_nat (nat i))"

section \<open>The pattern \<^verbatim>\<open>(?mi)^(no|grumpy)\s*$\<close>\<close>

text \<open>
  The regular expressions of Go's \<^verbatim>\<open>regexp\<close> package, as far as the pattern needs
  them. With the flag \<^verbatim>\<open>m\<close> the anchors \<^verbatim>\<open>^\<close> and \<^verbatim>\<open>$\<close> are the line anchors
  \<open>BeginLine\<close> and \<open>EndLine\<close>; with the flag \<^verbatim>\<open>i\<close> each letter of a literal also
  matches its other case (\<open>FoldLiteral\<close>); \<^verbatim>\<open>\s\<close> is the class of tab, line feed,
  form feed, carriage return and space. The pattern is ASCII, so matching bytes and
  matching UTF-8 runes agree.
\<close>

definition newline :: char where
  "newline = CHR 0x0A"

definition perl_space :: "char list" where
  "perl_space = [CHR 0x09, CHR 0x0A, CHR 0x0C, CHR 0x0D, CHR '' '']"

definition simple_fold :: "char \<Rightarrow> char list" where
  "simple_fold c =
     (case map_of (zip ''abcdefghijklmnopqrstuvwxyz'' ''ABCDEFGHIJKLMNOPQRSTUVWXYZ'') c of
        Some u \<Rightarrow> [c, u]
      | None \<Rightarrow>
         (case map_of (zip ''ABCDEFGHIJKLMNOPQRSTUVWXYZ'' ''abcdefghijklmnopqrstuvwxyz'') c of
            Some l \<Rightarrow> [c, l]
          | None \<Rightarrow> [c]))"

datatype regexp =
    EmptyMatch
  | Literal char
  | FoldLiteral char
  | CharClass "char list"
  | BeginLine
  | EndLine
  | Concat regexp regexp
  | Alternate regexp regexp
  | Star regexp
  | Capture regexp

text \<open>
  A cursor is a position in the text: the byte before it, if any, and the text after it.
  \<open>rmatch re z\<close> lists the cursors at which a match of \<open>re\<close> that starts at \<open>z\<close>
  can end. A repetition only counts the rounds that consume text, so the length of the
  remaining text bounds their number.
\<close>

type_synonym cursor = "char option \<times> string"

definition one_char :: "(char \<Rightarrow> bool) \<Rightarrow> cursor \<Rightarrow> cursor list" where
  "one_char ok z = (case snd z of [] \<Rightarrow> [] | x # xs \<Rightarrow> if ok x then [(Some x, xs)] else [])"

fun star_from :: "nat \<Rightarrow> (cursor \<Rightarrow> cursor list) \<Rightarrow> cursor \<Rightarrow> cursor list" where
  "star_from 0 step z = [z]"
| "star_from (Suc n) step z =
     z # concat (map (star_from n step)
                  (filter (\<lambda>z'. length (snd z') < length (snd z)) (step z)))"

primrec rmatch :: "regexp \<Rightarrow> cursor \<Rightarrow> cursor list" where
  "rmatch EmptyMatch z = [z]"
| "rmatch (Literal c) z = one_char (\<lambda>x. x = c) z"
| "rmatch (FoldLiteral c) z = one_char (\<lambda>x. x \<in> set (simple_fold c)) z"
| "rmatch (CharClass cs) z = one_char (\<lambda>x. x \<in> set cs) z"
| "rmatch BeginLine z = (if fst z = None \<or> fst z = Some newline then [z] else [])"
| "rmatch EndLine z = (case snd z of [] \<Rightarrow> [z] | x # _ \<Rightarrow> if x = newline then [z] else [])"
| "rmatch (Concat a b) z = concat (map (rmatch b) (rmatch a z))"
| "rmatch (Alternate a b) z = rmatch a z @ rmatch b z"
| "rmatch (Star a) z = star_from (length (snd z)) (rmatch a) z"
| "rmatch (Capture a) z = rmatch a z"

fun cursors :: "char option \<Rightarrow> string \<Rightarrow> cursor list" where
  "cursors p [] = [(p, [])]"
| "cursors p (x # xs) = (p, x # xs) # cursors (Some x) xs"

text \<open>\<^verbatim>\<open>MatchString\<close> reports whether the text contains a match, starting anywhere.\<close>

definition MatchString :: "regexp \<Rightarrow> string \<Rightarrow> bool" where
  "MatchString re s = list_ex (\<lambda>z. rmatch re z \<noteq> []) (cursors None s)"

primrec fold_literal :: "string \<Rightarrow> regexp" where
  "fold_literal [] = EmptyMatch"
| "fold_literal (c # cs) = Concat (FoldLiteral c) (fold_literal cs)"

definition grumpyKeywords :: regexp where
  "grumpyKeywords =
     Concat BeginLine
       (Concat (Capture (Alternate (fold_literal ''no'') (fold_literal ''grumpy'')))
          (Concat (Star (CharClass perl_space)) EndLine))"

text \<open>
  Vocabulary for the statements about the pattern: a word equal to a keyword up to the
  case of its letters, and the lines of a text (the pieces between line feeds).
\<close>

definition equal_fold :: "string \<Rightarrow> string \<Rightarrow> bool" where
  "equal_fold k kw = list_all2 (\<lambda>x c. x \<in> set (simple_fold c)) k kw"

fun split_lines :: "string \<Rightarrow> string list" where
  "split_lines [] = [[]]"
| "split_lines (x # xs) =
     (if x = newline then [] # split_lines xs
      else (case split_lines xs of [] \<Rightarrow> [[x]] | l # ls \<Rightarrow> (x # l) # ls))"

section \<open>The credential cache: \<^verbatim>\<open>setKey\<close>\<close>

text \<open>
  \<^verbatim>\<open>setKey\<close> reads the clock once for the test against \<open>update\<close> and, when the test
  lets it through, once more for the new deadline.
\<close>

definition realClowder_setKey ::
  "stdlib \<Rightarrow> world \<Rightarrow> string \<Rightarrow> realClowder \<Rightarrow> realClowder \<times> event list" where
  "realClowder_setKey lib w path c =
     (if \<not> (time_Now w 0 > update c) then (c, [])
      else
        let c1 = c\<lparr>update := time_Now w 1 + minute\<rparr> in
        if path = [] then (c1\<lparr>key := []\<rparr>, [])
        else
          (case os_ReadFile w path of
             Inr b \<Rightarrow> (c1\<lparr>key := strings_TrimSpace lib b\<rparr>, [ReadFile path])
           | Inl err \<Rightarrow>
               (c1\<lparr>key := []\<rparr>,
                [ReadFile path, LogError (''failed to read key at '' @ path) err])))"

text \<open>
  A sequence of invocations, each with the world it sees and its key path:
  \<open>setKey_run\<close> lists what each invocation did, \<open>setKey_after\<close> is the state they
  leave.
\<close>

fun setKey_run ::
  "stdlib \<Rightarrow> realClowder \<Rightarrow> (world \<times> string) list \<Rightarrow> event list list" where
  "setKey_run lib c [] = []"
| "setKey_run lib c ((w, path) # calls) =
     (case realClowder_setKey lib w path c of
        (c1, evs) \<Rightarrow> evs # setKey_run lib c1 calls)"

fun setKey_after :: "stdlib \<Rightarrow> realClowder \<Rightarrow> (world \<times> string) list \<Rightarrow> realClowder" where
  "setKey_after lib c [] = c"
| "setKey_after lib c ((w, path) # calls) =
     setKey_after lib (fst (realClowder_setKey lib w path c)) calls"

text \<open>
  Invocation number \<open>i\<close> of a sequence refreshes when it starts after the deadline it
  finds.
\<close>

definition refreshes :: "stdlib \<Rightarrow> realClowder \<Rightarrow> (world \<times> string) list \<Rightarrow> nat \<Rightarrow> bool" where
  "refreshes lib c calls i =
     (update (setKey_after lib c (take i calls)) < time_Now (fst (calls ! i)) 0)"

definition is_ReadFile :: "event \<Rightarrow> bool" where
  "is_ReadFile ev = (case ev of ReadFile _ \<Rightarrow> True | _ \<Rightarrow> False)"

definition file_reads :: "event list \<Rightarrow> nat" where
  "file_reads evs = length (filter is_ReadFile evs)"

section \<open>The image retriever\<close>

definition catResult_Format :: "stdlib \<Rightarrow> catResult \<Rightarrow> error + string" where
  "catResult_Format lib cr =
     (if Image cr = [] then Inl ''empty image url''
      else
        (case url_Parse lib (Image cr) of
           Inl err \<Rightarrow> Inl (''invalid image url '' @ Image cr @ '': '' @ err)
         | Inr img \<Rightarrow> Inr (''![cat image]('' @ img @ '')'')))"

definition realClowder_URL :: "stdlib \<Rightarrow> realClowder \<Rightarrow> string \<Rightarrow> bool \<Rightarrow> string" where
  "realClowder_URL lib c category movieCat =
     (let uri = url c;
          uri = (if category \<noteq> [] then uri @ ''&category='' @ url_QueryEscape lib category else uri);
          uri = (if key c \<noteq> [] then uri @ ''&api_key='' @ url_QueryEscape lib (key c) else uri);
          uri = (if movieCat then uri @ ''&mime_types=gif'' else uri)
      in uri)"

text \<open>
  The end of \<^verbatim>\<open>readCat\<close>, from \<^verbatim>\<open>a := cats[0]\<close> on. Both branches reach it with a
  non-empty \<open>cats\<close>, and \<open>a\<close> is its first element.
\<close>

definition readCat_validate ::
  "stdlib \<Rightarrow> world \<Rightarrow> string \<Rightarrow> catResult \<Rightarrow> (error + string) \<times> event list" where
  "readCat_validate lib w uri a =
     (if Image a = [] then (Inl (''no image url in response from '' @ uri), [])
      else
        (case ImageTooBig w (Image a) of
           (toobig, Some err) \<Rightarrow>
             (Inl (''could not validate image size '' @ Image a @ '': '' @ err),
              [SizeCheck (Image a)])
         | (toobig, None) \<Rightarrow>
             if toobig then (Inl (''longcat is too long: '' @ Image a), [SizeCheck (Image a)])
             else (catResult_Format lib a, [SizeCheck (Image a)])))"

definition realClowder_readCat ::
  "stdlib \<Rightarrow> world \<Rightarrow> realClowder \<Rightarrow> string \<Rightarrow> bool \<Rightarrow> (error + string) \<times> event list" where
  "realClowder_readCat lib w c category movieCat =
     (let uri = realClowder_URL lib c category movieCat in
      if MatchString grumpyKeywords category then
        readCat_validate lib w uri \<lparr>Image = grumpyURL\<rparr>
      else
        (case http_Get w uri of
           Inl err \<Rightarrow> (Inl (''could not read cat from '' @ uri @ '': '' @ err), [HttpGet uri])
         | Inr (sc, body) \<Rightarrow>
             if sc > 299 \<or> sc < 200 then
               (Inl (''failing '' @ show_int sc @ '' response from '' @ uri), [HttpGet uri])
             else
               (case json_Decode lib body of
                  Inl err \<Rightarrow> (Inl err, [HttpGet uri])
                | Inr [] \<Rightarrow> (Inl (''no cats in response from '' @ uri), [HttpGet uri])
                | Inr (a # _) \<Rightarrow>
                    (case readCat_validate lib w uri a of
                       (r, evs) \<Rightarrow> (r, HttpGet uri # evs)))))"

section \<open>The command handler\<close>

text \<open>
  The fields of the comment event that \<^verbatim>\<open>handle\<close> reads, the two interfaces it is
  given, and \<^verbatim>\<open>plugins.FormatResponseRaw\<close>, which is in another package and is a
  parameter. An interface value is modelled by its methods, acting on a state \<open>'s\<close> that
  stands for everything the implementations can see and change.
  \<^verbatim>\<open>QuoteAuthorForComment\<close> only builds a string.
\<close>

record Repository =
  Namespace :: string
  Name :: string

record User =
  Login :: string

record GenericCommentEvent =
  Repo :: Repository
  Number :: int
  IsPR :: bool
  Body :: string
  Link :: string
  Author :: User

record 's scmProviderClient =
  CreateComment :: "string \<Rightarrow> string \<Rightarrow> int \<Rightarrow> bool \<Rightarrow> string \<Rightarrow> 's \<Rightarrow> error option \<times> 's"
  QuoteAuthorForComment :: "string \<Rightarrow> string"

record 's clowder =
  readCat :: "string \<Rightarrow> bool \<Rightarrow> 's \<Rightarrow> (error + string) \<times> 's"

record plugins =
  FormatResponseRaw :: "string \<Rightarrow> string \<Rightarrow> string \<Rightarrow> string \<Rightarrow> string"

text \<open>
  The text of the comment that answers the event with \<open>reply\<close>, the record of the
  call \<^verbatim>\<open>spc.CreateComment(org, repo, number, e.IsPR, ...)\<close> that posts it, and the
  call itself; the source writes this call twice, once for the image and once for the
  fallback message.
\<close>

definition response_body ::
  "plugins \<Rightarrow> 's scmProviderClient \<Rightarrow> GenericCommentEvent \<Rightarrow> string \<Rightarrow> string" where
  "response_body pl spc e reply =
     FormatResponseRaw pl (Body e) (Link e) (QuoteAuthorForComment spc (Login (Author e))) reply"

definition comment_event ::
  "plugins \<Rightarrow> 's scmProviderClient \<Rightarrow> GenericCommentEvent \<Rightarrow> string \<Rightarrow> event" where
  "comment_event pl spc e reply =
     CallCreateComment (Namespace (Repo e)) (Name (Repo e)) (Number e) (IsPR e)
       (response_body pl spc e reply)"

definition post_comment ::
  "plugins \<Rightarrow> 's scmProviderClient \<Rightarrow> GenericCommentEvent \<Rightarrow> string \<Rightarrow> 's \<Rightarrow>
   error option \<times> event list \<times> 's" where
  "post_comment pl spc e reply s =
     (case CreateComment spc (Namespace (Repo e)) (Name (Repo e)) (Number e) (IsPR e)
             (response_body pl spc e reply) s of
        (err, s1) \<Rightarrow> (err, [comment_event pl spc e reply], s1))"

text \<open>
  The loop \<^verbatim>\<open>for i := 0; i < 3; i++\<close>. It either returns from \<^verbatim>\<open>handle\<close> with what
  \<^verbatim>\<open>CreateComment\<close> returned, or runs out of attempts.
\<close>

datatype loop_exit = Returned "error option" | Exhausted

function handle_loop ::
  "plugins \<Rightarrow> bool \<Rightarrow> string \<Rightarrow> 's scmProviderClient \<Rightarrow> GenericCommentEvent \<Rightarrow> 's clowder \<Rightarrow>
   nat \<Rightarrow> 's \<Rightarrow> loop_exit \<times> event list \<times> 's" where
  "handle_loop pl movieCat category spc e c i s =
     (if i < 3 then
        (case readCat c category movieCat s of
           (Inl err, s1) \<Rightarrow>
             (case handle_loop pl movieCat category spc e c (Suc i) s1 of
                (r, evs, s2) \<Rightarrow>
                  (r, CallReadCat category movieCat # LogError ''Failed to get cat img'' err # evs, s2))
         | (Inr resp, s1) \<Rightarrow>
             (case post_comment pl spc e resp s1 of
                (r, evs, s2) \<Rightarrow> (Returned r, CallReadCat category movieCat # evs, s2)))
      else (Exhausted, [], s))"
  by pat_completeness auto
termination
  by (relation "measure (\<lambda>(pl, movieCat, category, spc, e, c, i, s). 3 - i)") auto

declare handle_loop.simps [simp del]

definition handle ::
  "plugins \<Rightarrow> bool \<Rightarrow> string \<Rightarrow> 's scmProviderClient \<Rightarrow> GenericCommentEvent \<Rightarrow> 's clowder \<Rightarrow>
   ('s \<Rightarrow> 's) \<Rightarrow> 's \<Rightarrow> error option \<times> event list \<times> 's" where
  "handle pl movieCat category spc e c setKey s =
     (case handle_loop pl movieCat category spc e c 0 (setKey s) of
        (Returned r, evs, s1) \<Rightarrow> (r, CallSetKey # evs, s1)
      | (Exhausted, evs, s1) \<Rightarrow>
          let msg = (if category \<noteq> []
                     then ''Bad category. Please see https://api.thecatapi.com/api/categories/list''
                     else ''https://thecatapi.com appears to be down'') in
          (case post_comment pl spc e msg s1 of
             (perr, pevs, s2) \<Rightarrow>
               (Some ''could not find a valid cat image'',
                CallSetKey # evs @ pevs @
                  (case perr of None \<Rightarrow> [] | Some err \<Rightarrow> [LogError ''Failed to leave comment'' err]),
                s2)))"

text \<open>
  Vocabulary for the statements about \<^verbatim>\<open>handle\<close>: what a retriever returns on \<open>n\<close>
  successive calls and the state it leaves, the events of a run of failed attempts, the
  number of retriever calls in a list of events, and the comments posted in it.
\<close>

fun attempts ::
  "'s clowder \<Rightarrow> string \<Rightarrow> bool \<Rightarrow> nat \<Rightarrow> 's \<Rightarrow> (error + string) list \<times> 's" where
  "attempts c category movieCat 0 s = ([], s)"
| "attempts c category movieCat (Suc n) s =
     (case readCat c category movieCat s of
        (r, s1) \<Rightarrow>
          (case attempts c category movieCat n s1 of (rs, s2) \<Rightarrow> (r # rs, s2)))"

definition retry_events :: "string \<Rightarrow> bool \<Rightarrow> error list \<Rightarrow> event list" where
  "retry_events category movieCat errs =
     concat (map (\<lambda>err. [CallReadCat category movieCat, LogError ''Failed to get cat img'' err]) errs)"

definition is_CallReadCat :: "event \<Rightarrow> bool" where
  "is_CallReadCat ev = (case ev of CallReadCat _ _ \<Rightarrow> True | _ \<Rightarrow> False)"

definition retriever_calls :: "event list \<Rightarrow> nat" where
  "retriever_calls evs = length (filter is_CallReadCat evs)"

definition is_CallCreateComment :: "event \<Rightarrow> bool" where
  "is_CallCreateComment ev = (case ev of CallCreateComment _ _ _ _ _ \<Rightarrow> True | _ \<Rightarrow> False)"

definition comments :: "event list \<Rightarrow> event list" where
  "comments evs = filter is_CallCreateComment evs"

section \<open>Sample libraries, worlds and collaborators\<close>

text \<open>
  Concrete values for the parameters, used to run the model. \<open>go_lib\<close> answers as the Go
  library does on the inputs that occur below: \<^verbatim>\<open>url.QueryEscape\<close> keeps letters,
  digits and \<^verbatim>\<open>-_.~\<close>, writes a space as \<^verbatim>\<open>+\<close> and any other byte as \<^verbatim>\<open>%XX\<close>;
  \<^verbatim>\<open>url.Parse\<close> lowers the case of the scheme and rejects a URL that contains a
  control byte (the wording of its error is shortened); \<^verbatim>\<open>strings.TrimSpace\<close> drops
  the white space at both ends; and the bodies decode to the arrays they spell.
\<close>

definition cat_body :: string where
  \<open>cat_body = ''[{"url":"https://example.com/cat.jpg"}]''\<close>

definition shouting_body :: string where
  \<open>shouting_body = ''[{"url":"HTTP://example.com/cat.jpg"}]''\<close>

definition del_body :: string where
  \<open>del_body = ''[{"url":"http://example.com/'' @ [CHR 0x7F] @ ''"}]''\<close>

definition query_escape_byte :: "char \<Rightarrow> string" where
  "query_escape_byte x =
     (if x \<in> set ''abcdefghijklmnopqrstuvwxyzABCDEFGHIJKLMNOPQRSTUVWXYZ0123456789-_.~'' then [x]
      else if x = CHR '' '' then ''+''
      else [CHR ''%'', ''0123456789ABCDEF'' ! (of_char x div 16),
            ''0123456789ABCDEF'' ! (of_char x mod 16)])"

definition trim_ascii_space :: "string \<Rightarrow> string" where
  "trim_ascii_space s =
     rev (dropWhile (\<lambda>x. x \<in> set perl_space) (rev (dropWhile (\<lambda>x. x \<in> set perl_space) s)))"

definition go_lib :: stdlib where
  "go_lib =
     \<lparr> url_QueryEscape = (\<lambda>s. concat (map query_escape_byte s)),
       url_Parse = (\<lambda>u. if u = ''HTTP://example.com/cat.jpg'' then Inr ''http://example.com/cat.jpg''
                         else if CHR 0x7F \<in> set u then Inl ''net/url: invalid control character in URL''
                         else Inr u),
       strings_TrimSpace = trim_ascii_space,
       json_Decode = (\<lambda>b. if b = shouting_body then Inr [\<lparr>Image = ''HTTP://example.com/cat.jpg''\<rparr>]
                           else if b = del_body then Inr [\<lparr>Image = ''http://example.com/'' @ [CHR 0x7F]\<rparr>]
                           else if b = cat_body then Inr [\<lparr>Image = ''https://example.com/cat.jpg''\<rparr>]
                           else Inl ''invalid character'') \<rparr>"

text \<open>A world in which nothing outside can be reached, at time \<open>t\<close>.\<close>

definition world_down :: "int \<Rightarrow> world" where
  "world_down t =
     \<lparr> time_Now = (\<lambda>n. t),
       os_ReadFile = (\<lambda>p. Inl ''no such file or directory''),
       http_Get = (\<lambda>u. Inl ''connection refused''),
       ImageTooBig = (\<lambda>u. (True, Some ''HEAD error: connection refused'')) \<rparr>"

text \<open>
  A world, at time \<open>t\<close>, in which the API answers 200 with the given body, the size
  check gives the given verdict, and every file holds a key between two spaces.
\<close>

definition world_up :: "int \<Rightarrow> string \<Rightarrow> bool \<Rightarrow> world" where
  "world_up t body toobig =
     \<lparr> time_Now = (\<lambda>n. t),
       os_ReadFile = (\<lambda>p. Inr '' secret ''),
       http_Get = (\<lambda>u. Inr (200, body)),
       ImageTooBig = (\<lambda>u. (toobig, None)) \<rparr>"

definition plain_plugins :: plugins where
  "plain_plugins = \<lparr> FormatResponseRaw = (\<lambda>body link login reply. login @ '': '' @ reply) \<rparr>"

definition meow_event :: GenericCommentEvent where
  "meow_event =
     \<lparr> Repo = \<lparr> Namespace = ''org'', Name = ''repo'' \<rparr>, Number = 5, IsPR = True,
       Body = ''/meow'', Link = ''https://example.com/pr/5#c1'', Author = \<lparr> Login = ''alice'' \<rparr> \<rparr>"

text \<open>A poster that answers every call with the same result and keeps no state.\<close>

definition poster :: "error option \<Rightarrow> 's scmProviderClient" where
  "poster res =
     \<lparr> CreateComment = (\<lambda>org repo number pr comment s. (res, s)),
       QuoteAuthorForComment = (\<lambda>login. CHR ''@'' # login) \<rparr>"

text \<open>
  A \<open>realClowder\<close> as a \<open>clowder\<close>: the state counts the calls made so far, and call
  number \<open>n\<close> sees the world \<open>ws n\<close>.
\<close>

definition clowder_of :: "stdlib \<Rightarrow> (nat \<Rightarrow> world) \<Rightarrow> realClowder \<Rightarrow> nat clowder" where
  "clowder_of lib ws c =
     \<lparr> readCat = (\<lambda>category movieCat n.
         (fst (realClowder_readCat lib (ws n) c category movieCat), Suc n)) \<rparr>"

text \<open>A retriever that fails on its first \<open>k\<close> calls and succeeds from then on.\<close>

definition flaky :: "nat \<Rightarrow> nat clowder" where
  "flaky k =
     \<lparr> readCat = (\<lambda>category movieCat n.
         (if n < k then Inl ''no cats today'' else Inr ''![cat image](https://example.com/cat.jpg)'',
          Suc n)) \<rparr>"

text \<open>
  The same two collaborators on a state that also keeps the comments posted so far: the
  retriever counts its calls, the poster appends each comment it is given.
\<close>

definition flaky_keeping :: "nat \<Rightarrow> (nat \<times> string list) clowder" where
  "flaky_keeping k =
     \<lparr> readCat = (\<lambda>category movieCat (n, posted).
         (if n < k then Inl ''no cats today'' else Inr ''![cat image](https://example.com/cat.jpg)'',
          (Suc n, posted))) \<rparr>"

definition recording_poster :: "error option \<Rightarrow> (nat \<times> string list) scmProviderClient" where
  "recording_poster res =
     \<lparr> CreateComment = (\<lambda>org repo number pr comment (n, posted). (res, (n, posted @ [comment]))),
       QuoteAuthorForComment = (\<lambda>login. CHR ''@'' # login) \<rparr>"

text \<open>
  Three invocations with a key path: the second starts exactly at the deadline the first
  has set, the third one nanosecond later. And two invocations without a key path,
  more than a minute apart.
\<close>

definition burst :: "(world \<times> string) list" where
  "burst =
     [(world_up 5 [] False, ''/etc/cat/key''),
      (world_up (5 + minute) [] False, ''/etc/cat/key''),
      (world_up (6 + minute) [] False, ''/etc/cat/key'')]"

definition keyless :: "(world \<times> string) list" where
  "keyless = [(world_up 5 [] False, []), (world_up (6 + minute) [] False, [])]"

section \<open>Facts about the pattern\<close>

lemma star_from_self: "z \<in> set (star_from n step z)"
  by (cases n) simp_all

lemma rmatch_fold_literal:
  "equal_fold k kw \<Longrightarrow> \<exists>p'. (p', r) \<in> set (rmatch (fold_literal kw) (p, k @ r))"
proof (induction kw arbitrary: k p)
  case Nil
  then show ?case by (simp add: equal_fold_def)
next
  case (Cons c cs)
  from Cons.prems obtain x xs where k: "k = x # xs" and x: "x \<in> set (simple_fold c)"
    and xs: "equal_fold xs cs"
    by (auto simp: equal_fold_def list_all2_Cons2)
  from Cons.IH [OF xs, of "Some x"] obtain p' where
    "(p', r) \<in> set (rmatch (fold_literal cs) (Some x, xs @ r))" by blast
  with k x show ?case by (auto simp: one_char_def)
qed

lemma rmatch_CharClass_Cons:
  "rmatch (CharClass cs) (p, x # xs) = (if x \<in> set cs then [(Some x, xs)] else [])"
  by (simp add: one_char_def)

lemma star_from_class:
  "set w \<subseteq> set cs \<Longrightarrow> length (w @ r) \<le> n \<Longrightarrow>
   \<exists>p'. (p', r) \<in> set (star_from n (rmatch (CharClass cs)) (p, w @ r))"
proof (induction w arbitrary: p n)
  case Nil
  show ?case using star_from_self [of "(p, r)" n] by auto
next
  case (Cons x w)
  from Cons.prems obtain m where n: "n = Suc m" and m: "length (w @ r) \<le> m"
    by (cases n) auto
  from Cons.prems have x: "x \<in> set cs" and w: "set w \<subseteq> set cs" by auto
  from Cons.IH [OF w m, of "Some x"] obtain p' where
    "(p', r) \<in> set (star_from m (rmatch (CharClass cs)) (Some x, w @ r))" by blast
  with n x show ?case
    by (simp add: rmatch_CharClass_Cons del: rmatch.simps) blast
qed

lemma cursors_head: "(p, s) \<in> set (cursors p s)"
  by (cases s) simp_all

lemma cursors_split:
  "(if a = [] then p else Some (last a), b) \<in> set (cursors p (a @ b))"
proof (induction a arbitrary: p)
  case Nil
  then show ?case by (simp add: cursors_head)
next
  case (Cons x a)
  from Cons.IH [of "Some x"] show ?case by (auto split: if_splits)
qed

lemma rmatch_ConcatI:
  "z1 \<in> set (rmatch a z) \<Longrightarrow> z2 \<in> set (rmatch b z1) \<Longrightarrow> z2 \<in> set (rmatch (Concat a b) z)"
  by (simp only: rmatch.simps set_concat set_map) blast

lemma rmatch_BeginLineI:
  "p = None \<or> p = Some newline \<Longrightarrow> (p, s) \<in> set (rmatch BeginLine (p, s))"
  by simp

lemma rmatch_EndLineI:
  "r = [] \<or> hd r = newline \<Longrightarrow> (p, r) \<in> set (rmatch EndLine (p, r))"
  by (cases r) simp_all

lemma rmatch_StarI:
  assumes "set w \<subseteq> set cs"
  shows "\<exists>p'. (p', r) \<in> set (rmatch (Star (CharClass cs)) (p, w @ r))"
proof -
  have "length (w @ r) \<le> length (w @ r)" by simp
  from star_from_class [OF assms this, of p] show ?thesis
    by (simp only: rmatch.simps snd_conv)
qed

lemma rmatch_keywordI:
  assumes "equal_fold k ''no'' \<or> equal_fold k ''grumpy''"
  shows "\<exists>p'. (p', r) \<in> set (rmatch (Capture (Alternate (fold_literal ''no'') (fold_literal ''grumpy'')))
                               (p, k @ r))"
proof -
  from assms show ?thesis
  proof
    assume "equal_fold k ''no''"
    from rmatch_fold_literal [OF this, of r p] show ?thesis
      by (simp only: rmatch.simps set_append) blast
  next
    assume "equal_fold k ''grumpy''"
    from rmatch_fold_literal [OF this, of r p] show ?thesis
      by (simp only: rmatch.simps set_append) blast
  qed
qed

text \<open>
  A keyword, in any case, at the start of a line and followed to the end of the line by
  bytes of \<^verbatim>\<open>\s\<close> only is a match.
\<close>

lemma grumpy_line_matches:
  assumes a: "a = [] \<or> last a = newline"
    and k: "equal_fold k ''no'' \<or> equal_fold k ''grumpy''"
    and w: "set w \<subseteq> set perl_space"
    and r: "r = [] \<or> hd r = newline"
  shows "MatchString grumpyKeywords (a @ k @ w @ r)"
proof -
  define p where "p = (if a = [] then None else Some (last a))"
  have cur: "(p, k @ w @ r) \<in> set (cursors None (a @ k @ w @ r))"
    unfolding p_def by (rule cursors_split)
  have "p = None \<or> p = Some newline"
    using a unfolding p_def by auto
  then have bol: "(p, k @ w @ r) \<in> set (rmatch BeginLine (p, k @ w @ r))"
    by (rule rmatch_BeginLineI)
  from rmatch_keywordI [OF k, of "w @ r" p] obtain p1 where p1:
    "(p1, w @ r) \<in> set (rmatch (Capture (Alternate (fold_literal ''no'') (fold_literal ''grumpy'')))
                          (p, k @ w @ r))"
    by blast
  from rmatch_StarI [OF w, of r p1] obtain p2 where p2:
    "(p2, r) \<in> set (rmatch (Star (CharClass perl_space)) (p1, w @ r))"
    by blast
  have eol: "(p2, r) \<in> set (rmatch EndLine (p2, r))"
    using r by (rule rmatch_EndLineI)
  have "(p2, r) \<in> set (rmatch grumpyKeywords (p, k @ w @ r))"
    unfolding grumpyKeywords_def
    by (rule rmatch_ConcatI [OF bol], rule rmatch_ConcatI [OF p1], rule rmatch_ConcatI [OF p2 eol])
  then have "rmatch grumpyKeywords (p, k @ w @ r) \<noteq> []"
    by auto
  with cur show ?thesis
    unfolding MatchString_def list_ex_iff by blast
qed

lemma split_lines_nonempty: "split_lines s \<noteq> []"
  by (induction s) (auto split: list.splits)

lemma split_lines_hd:
  "split_lines s = l0 # ls \<Longrightarrow> \<exists>r. s = l0 @ r \<and> (r = [] \<or> hd r = newline)"
proof (induction s arbitrary: l0 ls)
  case Nil
  then show ?case by simp
next
  case (Cons x xs)
  show ?case
  proof (cases "x = newline")
    case True
    with Cons.prems have "l0 = []" by simp
    with True show ?thesis by simp
  next
    case False
    obtain l1 ls1 where sl: "split_lines xs = l1 # ls1"
      using split_lines_nonempty [of xs] by (cases "split_lines xs") auto
    from Cons.IH [OF sl] obtain r where r: "xs = l1 @ r" "r = [] \<or> hd r = newline" by blast
    from False sl Cons.prems have "l0 = x # l1" by simp
    with r show ?thesis by simp
  qed
qed

lemma split_lines_tl:
  "l \<in> set (tl (split_lines s)) \<Longrightarrow>
   \<exists>a r. s = a @ l @ r \<and> a \<noteq> [] \<and> last a = newline \<and> (r = [] \<or> hd r = newline)"
proof (induction s)
  case Nil
  then show ?case by simp
next
  case (Cons x xs)
  obtain l1 ls1 where sl: "split_lines xs = l1 # ls1"
    using split_lines_nonempty [of xs] by (cases "split_lines xs") auto
  show ?case
  proof (cases "x = newline")
    case True
    with Cons.prems sl have "l = l1 \<or> l \<in> set (tl (split_lines xs))" by auto
    then show ?thesis
    proof
      assume l: "l = l1"
      from split_lines_hd [OF sl] obtain r where "xs = l1 @ r" "r = [] \<or> hd r = newline" by blast
      with l True have "x # xs = [x] @ l @ r \<and> [x] \<noteq> [] \<and> last [x] = newline \<and> (r = [] \<or> hd r = newline)"
        by simp
      then show ?thesis by blast
    next
      assume "l \<in> set (tl (split_lines xs))"
      from Cons.IH [OF this] obtain a r where
        "xs = a @ l @ r" "a \<noteq> []" "last a = newline" "r = [] \<or> hd r = newline" by blast
      then have "x # xs = (x # a) @ l @ r \<and> x # a \<noteq> [] \<and> last (x # a) = newline \<and> (r = [] \<or> hd r = newline)"
        by simp
      then show ?thesis by blast
    qed
  next
    case False
    with Cons.prems sl have "l \<in> set (tl (split_lines xs))" by simp
    from Cons.IH [OF this] obtain a r where
      "xs = a @ l @ r" "a \<noteq> []" "last a = newline" "r = [] \<or> hd r = newline" by blast
    then have "x # xs = (x # a) @ l @ r \<and> x # a \<noteq> [] \<and> last (x # a) = newline \<and> (r = [] \<or> hd r = newline)"
      by simp
    then show ?thesis by blast
  qed
qed

lemma split_lines_line:
  assumes "l \<in> set (split_lines s)"
  shows "\<exists>a r. s = a @ l @ r \<and> (a = [] \<or> last a = newline) \<and> (r = [] \<or> hd r = newline)"
proof -
  obtain l1 ls1 where sl: "split_lines s = l1 # ls1"
    using split_lines_nonempty [of s] by (cases "split_lines s") auto
  with assms have "l = l1 \<or> l \<in> set (tl (split_lines s))" by auto
  then show ?thesis
  proof
    assume "l = l1"
    with split_lines_hd [OF sl] obtain r where "s = [] @ l @ r" "r = [] \<or> hd r = newline" by auto
    then show ?thesis by blast
  next
    assume "l \<in> set (tl (split_lines s))"
    from split_lines_tl [OF this] show ?thesis by blast
  qed
qed

lemma grumpy_line_in_text:
  assumes "l \<in> set (split_lines s)" "l = k @ w"
    "equal_fold k ''no'' \<or> equal_fold k ''grumpy''" "set w \<subseteq> set perl_space"
  shows "MatchString grumpyKeywords s"
proof -
  from split_lines_line [OF assms(1)] obtain a r where
    s: "s = a @ l @ r" and a: "a = [] \<or> last a = newline" and r: "r = [] \<or> hd r = newline"
    by blast
  from grumpy_line_matches [OF a assms(3) assms(4) r] s assms(2) show ?thesis by simp
qed

text \<open>
  Where no match can start: at a cursor that is not at the start of a line, and at a
  cursor whose text is empty or starts with a byte of \<^verbatim>\<open>\s\<close>.
\<close>

lemma rmatch_Concat_Nil: "rmatch a z = [] \<Longrightarrow> rmatch (Concat a b) z = []"
  by simp

lemma rmatch_grumpy_not_BeginLine:
  assumes "p \<noteq> None" and "p \<noteq> Some newline"
  shows "rmatch grumpyKeywords (p, s) = []"
proof -
  have "rmatch BeginLine (p, s) = []"
    using assms by simp
  then show ?thesis
    unfolding grumpyKeywords_def by (rule rmatch_Concat_Nil)
qed

lemma rmatch_grumpy_Nil: "rmatch grumpyKeywords (p, []) = []"
  by (simp add: grumpyKeywords_def one_char_def)

lemma rmatch_grumpy_space:
  "x \<in> set perl_space \<Longrightarrow> rmatch grumpyKeywords (p, x # xs) = []"
  by (auto simp add: grumpyKeywords_def one_char_def simple_fold_def perl_space_def)

lemma no_match_in_space:
  "set sp \<subseteq> set perl_space \<Longrightarrow> \<forall>z \<in> set (cursors p sp). rmatch grumpyKeywords z = []"
proof (induction sp arbitrary: p)
  case Nil
  show ?case by (simp add: rmatch_grumpy_Nil)
next
  case (Cons x sp)
  then have "x \<in> set perl_space" and "set sp \<subseteq> set perl_space" by simp_all
  with Cons.IH [of "Some x"] show ?case by (simp add: rmatch_grumpy_space)
qed

lemma no_match_inside_line:
  assumes "newline \<notin> set k" and "set sp \<subseteq> set perl_space"
    and "p \<noteq> None" and "p \<noteq> Some newline"
  shows "\<forall>z \<in> set (cursors p (k @ sp)). rmatch grumpyKeywords z = []"
  using assms
proof (induction k arbitrary: p)
  case Nil
  with no_match_in_space [of sp p] show ?case by simp
next
  case (Cons x k)
  from Cons.prems have "newline \<notin> set k" and "Some x \<noteq> Some newline" by auto
  with Cons.IH [of "Some x"] Cons.prems(2)
  have "\<forall>z \<in> set (cursors (Some x) (k @ sp)). rmatch grumpyKeywords z = []" by simp
  with Cons.prems(3,4) show ?case by (simp add: rmatch_grumpy_not_BeginLine)
qed

lemma no_match_after_space:
  assumes "set pre \<subseteq> set perl_space" and "pre \<noteq> []" and "last pre \<noteq> newline"
    and "newline \<notin> set k" and "set sp \<subseteq> set perl_space"
  shows "\<forall>z \<in> set (cursors p (pre @ k @ sp)). rmatch grumpyKeywords z = []"
  using assms(1-3)
proof (induction pre arbitrary: p)
  case Nil
  then show ?case by simp
next
  case (Cons x pre)
  from Cons.prems have x: "x \<in> set perl_space" by simp
  show ?case
  proof (cases "pre = []")
    case True
    with Cons.prems have "Some x \<noteq> None" and "Some x \<noteq> Some newline" by simp_all
    from no_match_inside_line [OF assms(4,5) this]
    show ?thesis using True x by (simp add: rmatch_grumpy_space)
  next
    case False
    with Cons.prems have "set pre \<subseteq> set perl_space" and "last pre \<noteq> newline" by simp_all
    from Cons.IH [OF this(1) False this(2), of "Some x"]
    show ?thesis using x by (simp add: rmatch_grumpy_space)
  qed
qed

lemma equal_fold_no_newline:
  assumes "equal_fold k ''no'' \<or> equal_fold k ''grumpy''"
  shows "newline \<notin> set k"
  using assms
  by (auto simp add: equal_fold_def list_all2_Cons2 simple_fold_def newline_def)

lemma space_before_keyword_no_match:
  assumes "equal_fold k ''no'' \<or> equal_fold k ''grumpy''"
    and "set pre \<subseteq> set perl_space" and "pre \<noteq> []" and "last pre \<noteq> newline"
    and "set sp \<subseteq> set perl_space"
  shows "\<not> MatchString grumpyKeywords (pre @ k @ sp)"
  using no_match_after_space [OF assms(2-4) equal_fold_no_newline [OF assms(1)] assms(5), of None]
  by (simp add: MatchString_def list_ex_iff)

section \<open>The request URL\<close>

text \<open>
  Claim C6. For every category, cached key and movie flag, the URL built by \<^verbatim>\<open>URL\<close> is
  the base endpoint followed by \<^verbatim>\<open>&category=\<close> and the escaped category exactly when
  the category is not empty, then \<^verbatim>\<open>&api_key=\<close> and the escaped key exactly when the
  cached key is not empty, then \<^verbatim>\<open>&mime_types=gif\<close> exactly when the movie flag is set,
  in this order.
\<close>

theorem URL_layout:
  "realClowder_URL lib c category movieCat =
     url c
     @ (if category \<noteq> [] then ''&category='' @ url_QueryEscape lib category else [])
     @ (if key c \<noteq> [] then ''&api_key='' @ url_QueryEscape lib (key c) else [])
     @ (if movieCat then ''&mime_types=gif'' else [])"
  by (simp add: realClowder_URL_def Let_def)

theorem URL_layout_witness:
  "realClowder_URL go_lib (meow\<lparr>key := ''k1''\<rparr>) ''hats & boxes'' True =
     ''https://api.thecatapi.com/v1/images/search?format=json&results_per_page=1&category=hats+%26+boxes&api_key=k1&mime_types=gif''
   \<and> realClowder_URL go_lib meow [] False =
     ''https://api.thecatapi.com/v1/images/search?format=json&results_per_page=1''"
proof -
  have "url_QueryEscape go_lib ''hats & boxes'' = ''hats+%26+boxes''"
    by code_simp
  moreover have "url_QueryEscape go_lib ''k1'' = ''k1''"
    by code_simp
  ultimately show ?thesis
    using URL_layout [of go_lib "meow\<lparr>key := ''k1''\<rparr>" "''hats & boxes''" True]
      URL_layout [of go_lib meow "[]" False]
    by (simp add: meow_def)
qed

section \<open>Refreshing the key\<close>

text \<open>
  Claim C5. When \<^verbatim>\<open>setKey\<close> is not held back by the deadline: with an empty key path
  the cached key is cleared and no file is read; when reading the file fails, the error
  is logged and the cached key is cleared; otherwise the key becomes the content of the
  file with the surrounding white space trimmed. In each case \<^verbatim>\<open>setKey\<close> returns.
\<close>

theorem setKey_refresh:
  assumes "update c < time_Now w 0"
  shows "(path = [] \<longrightarrow>
            key (fst (realClowder_setKey lib w path c)) = [] \<and>
            snd (realClowder_setKey lib w path c) = [])
       \<and> (path \<noteq> [] \<and> os_ReadFile w path = Inl err \<longrightarrow>
            key (fst (realClowder_setKey lib w path c)) = [] \<and>
            snd (realClowder_setKey lib w path c) =
              [ReadFile path, LogError (''failed to read key at '' @ path) err])
       \<and> (path \<noteq> [] \<and> os_ReadFile w path = Inr b \<longrightarrow>
            key (fst (realClowder_setKey lib w path c)) = strings_TrimSpace lib b \<and>
            snd (realClowder_setKey lib w path c) = [ReadFile path])"
  using assms by (simp add: realClowder_setKey_def Let_def)

theorem setKey_refresh_witness:
  "update (meow\<lparr>key := ''old''\<rparr>) < time_Now (world_up 5 [] False) 0
   \<and> key (fst (realClowder_setKey go_lib (world_up 5 [] False) [] (meow\<lparr>key := ''old''\<rparr>))) = []
   \<and> snd (realClowder_setKey go_lib (world_down 5) ''/etc/cat/key'' (meow\<lparr>key := ''old''\<rparr>))
       = [ReadFile ''/etc/cat/key'',
          LogError ''failed to read key at /etc/cat/key'' ''no such file or directory'']
   \<and> key (fst (realClowder_setKey go_lib (world_down 5) ''/etc/cat/key'' (meow\<lparr>key := ''old''\<rparr>))) = []
   \<and> key (fst (realClowder_setKey go_lib (world_up 5 [] False) ''/etc/cat/key'' (meow\<lparr>key := ''old''\<rparr>)))
       = ''secret''"
proof -
  have t1: "update (meow\<lparr>key := ''old''\<rparr>) < time_Now (world_up 5 [] False) 0"
    by (simp add: meow_def world_up_def)
  have t2: "update (meow\<lparr>key := ''old''\<rparr>) < time_Now (world_down 5) 0"
    by (simp add: meow_def world_down_def)
  have f1: "os_ReadFile (world_down 5) ''/etc/cat/key'' = Inl ''no such file or directory''"
    by (simp add: world_down_def)
  have f2: "os_ReadFile (world_up 5 [] False) ''/etc/cat/key'' = Inr '' secret ''"
    by (simp add: world_up_def)
  have tr: "strings_TrimSpace go_lib '' secret '' = ''secret''"
    by code_simp
  from setKey_refresh [OF t1, of "[]" go_lib]
    setKey_refresh [OF t2, of "''/etc/cat/key''" go_lib "''no such file or directory''"]
    setKey_refresh [OF t1, of "''/etc/cat/key''" go_lib _ "'' secret ''"]
    t1 f1 f2 tr
  show ?thesis by simp
qed

section \<open>The retriever\<close>

lemma readCat_grumpy:
  assumes "MatchString grumpyKeywords category"
  shows "realClowder_readCat lib w c category movieCat =
         readCat_validate lib w (realClowder_URL lib c category movieCat) \<lparr>Image = grumpyURL\<rparr>"
  using assms by (simp add: realClowder_readCat_def Let_def)

lemma grumpyURL_nonempty: "grumpyURL \<noteq> []"
  by (simp add: grumpyURL_def)

lemma validate_events:
  "Image a \<noteq> [] \<Longrightarrow> snd (readCat_validate lib w uri a) = [SizeCheck (Image a)]"
  by (simp add: readCat_validate_def split: prod.splits option.splits)

lemma validate_ok:
  "Image a \<noteq> [] \<Longrightarrow> ImageTooBig w (Image a) = (False, None) \<Longrightarrow>
   fst (readCat_validate lib w uri a) = catResult_Format lib a"
  by (simp add: readCat_validate_def)

lemma validate_not_ok:
  "ImageTooBig w (Image a) \<noteq> (False, None) \<Longrightarrow> isl (fst (readCat_validate lib w uri a))"
  by (auto simp add: readCat_validate_def split: prod.splits option.splits)

lemma readCat_not_grumpy:
  assumes "\<not> MatchString grumpyKeywords category"
  shows "take 1 (snd (realClowder_readCat lib w c category movieCat)) =
         [HttpGet (realClowder_URL lib c category movieCat)]"
  using assms
  by (simp add: realClowder_readCat_def Let_def split: sum.splits prod.splits list.splits)

text \<open>
  Claim C1, as the code has it. Take any category made of white space, then \<^verbatim>\<open>no\<close> or
  \<^verbatim>\<open>grumpy\<close> in any case of the letters, then white space, and nothing else; any movie
  flag; any state of the credential cache. When the white space before the keyword is
  empty or ends in a line feed, \<^verbatim>\<open>readCat\<close> makes no HTTP GET: its only call to the
  outside is the size check of the fixed grumpy URL; it returns the embed of that URL
  when the size check reports, without error, an image that is not too big and the URL
  parses to itself, and it returns an error when the size check reports an error or an
  image that is too big. When the white space before the keyword is not empty and does
  not end in a line feed, the pattern does not match and \<^verbatim>\<open>readCat\<close> starts with the
  HTTP GET to the API.
\<close>

theorem readCat_grumpy_override:
  assumes "equal_fold k ''no'' \<or> equal_fold k ''grumpy''"
    and "set pre \<subseteq> set perl_space"
    and "set sp \<subseteq> set perl_space"
    and "category = pre @ k @ sp"
  shows "(pre = [] \<or> last pre = newline \<longrightarrow>
            snd (realClowder_readCat lib w c category movieCat) = [SizeCheck grumpyURL]
            \<and> (ImageTooBig w grumpyURL = (False, None) \<and> url_Parse lib grumpyURL = Inr grumpyURL \<longrightarrow>
                 fst (realClowder_readCat lib w c category movieCat)
                   = Inr (''![cat image]('' @ grumpyURL @ '')''))
            \<and> (ImageTooBig w grumpyURL \<noteq> (False, None) \<longrightarrow>
                 isl (fst (realClowder_readCat lib w c category movieCat))))
       \<and> (pre \<noteq> [] \<and> last pre \<noteq> newline \<longrightarrow>
            \<not> MatchString grumpyKeywords category
            \<and> take 1 (snd (realClowder_readCat lib w c category movieCat))
                = [HttpGet (realClowder_URL lib c category movieCat)])"
proof (intro conjI impI)
  assume a: "pre = [] \<or> last pre = newline"
  have "MatchString grumpyKeywords (pre @ k @ sp @ [])"
    by (rule grumpy_line_matches) (use assms a in simp_all)
  with assms(4) have m: "MatchString grumpyKeywords category" by simp
  note rc = readCat_grumpy [OF m, of lib w c movieCat]
  have img: "Image \<lparr>Image = grumpyURL\<rparr> \<noteq> []" by (simp add: grumpyURL_nonempty)
  show "snd (realClowder_readCat lib w c category movieCat) = [SizeCheck grumpyURL]"
    using validate_events [OF img, of lib w] by (simp add: rc)
  show "fst (realClowder_readCat lib w c category movieCat) = Inr (''![cat image]('' @ grumpyURL @ '')'')"
    if "ImageTooBig w grumpyURL = (False, None) \<and> url_Parse lib grumpyURL = Inr grumpyURL"
    using that validate_ok [OF img, of w lib]
    by (simp add: rc catResult_Format_def grumpyURL_nonempty)
  show "isl (fst (realClowder_readCat lib w c category movieCat))"
    if "ImageTooBig w grumpyURL \<noteq> (False, None)"
    using that validate_not_ok [of w "\<lparr>Image = grumpyURL\<rparr>" lib] by (simp add: rc)
next
  assume b: "pre \<noteq> [] \<and> last pre \<noteq> newline"
  from space_before_keyword_no_match [OF assms(1,2) _ _ assms(3)] b assms(4)
  show m: "\<not> MatchString grumpyKeywords category" by simp
  from readCat_not_grumpy [OF m]
  show "take 1 (snd (realClowder_readCat lib w c category movieCat))
        = [HttpGet (realClowder_URL lib c category movieCat)]" .
qed

theorem readCat_grumpy_override_witness:
  "snd (realClowder_readCat go_lib (world_up 1 [] False) (meow\<lparr>key := ''k1''\<rparr>) ''Grumpy  '' True)
     = [SizeCheck grumpyURL]
   \<and> fst (realClowder_readCat go_lib (world_up 1 [] False) (meow\<lparr>key := ''k1''\<rparr>) ''Grumpy  '' True)
     = Inr (''![cat image]('' @ grumpyURL @ '')'')
   \<and> isl (fst (realClowder_readCat go_lib (world_up 1 [] True) meow ''NO'' False))
   \<and> snd (realClowder_readCat go_lib (world_down 1) meow ('' '' @ [newline] @ ''no'') False)
     = [SizeCheck grumpyURL]
   \<and> take 1 (snd (realClowder_readCat go_lib (world_down 1) meow ('' '' @ ''no'') False))
     = [HttpGet ''https://api.thecatapi.com/v1/images/search?format=json&results_per_page=1&category=+no'']"
proof -
  have k: "equal_fold ''Grumpy'' ''no'' \<or> equal_fold ''Grumpy'' ''grumpy''"
    by (simp add: equal_fold_def simple_fold_def)
  have k2: "equal_fold ''NO'' ''no'' \<or> equal_fold ''NO'' ''grumpy''"
    by (simp add: equal_fold_def simple_fold_def)
  have k3: "equal_fold ''no'' ''no'' \<or> equal_fold ''no'' ''grumpy''"
    by (simp add: equal_fold_def simple_fold_def)
  have e: "set [] \<subseteq> set perl_space" by simp
  have sp: "set ''  '' \<subseteq> set perl_space" by (simp add: perl_space_def)
  have lf: "set ('' '' @ [newline]) \<subseteq> set perl_space" by (simp add: perl_space_def newline_def)
  have one: "set '' '' \<subseteq> set perl_space" by (simp add: perl_space_def)
  have c1: "''Grumpy  '' = [] @ ''Grumpy'' @ ''  ''" by simp
  have c2: "''NO'' = [] @ ''NO'' @ []" by simp
  have c3: "'' '' @ [newline] @ ''no'' = ('' '' @ [newline]) @ ''no'' @ []" by simp
  have c4: "'' '' @ ''no'' = '' '' @ ''no'' @ []" by simp
  have start1: "[] = [] \<or> last [] = newline" by simp
  have start3: "'' '' @ [newline] = [] \<or> last ('' '' @ [newline]) = newline" by simp
  have start4: "'' '' \<noteq> [] \<and> last '' '' \<noteq> newline" by (simp add: newline_def)
  have ok: "ImageTooBig (world_up 1 [] False) grumpyURL = (False, None)
            \<and> url_Parse go_lib grumpyURL = Inr grumpyURL"
    by (simp add: world_up_def go_lib_def grumpyURL_def)
  have big: "ImageTooBig (world_up 1 [] True) grumpyURL \<noteq> (False, None)"
    by (simp add: world_up_def)
  note t1 = readCat_grumpy_override [OF k e sp c1, of go_lib "world_up 1 [] False"
      "meow\<lparr>key := ''k1''\<rparr>" True, THEN conjunct1, THEN mp, OF start1]
  note t2 = readCat_grumpy_override [OF k2 e e c2, of go_lib "world_up 1 [] True" meow False,
      THEN conjunct1, THEN mp, OF start1]
  note t3 = readCat_grumpy_override [OF k3 lf e c3, of go_lib "world_down 1" meow False,
      THEN conjunct1, THEN mp, OF start3]
  note t4 = readCat_grumpy_override [OF k3 one e c4, of go_lib "world_down 1" meow False,
      THEN conjunct2, THEN mp, OF start4]
  have u: "realClowder_URL go_lib meow ('' '' @ ''no'') False
           = ''https://api.thecatapi.com/v1/images/search?format=json&results_per_page=1&category=+no''"
    by code_simp
  from t1 [THEN conjunct1] t1 [THEN conjunct2, THEN conjunct1, THEN mp, OF ok]
    t2 [THEN conjunct2, THEN conjunct2, THEN mp, OF big]
    t3 [THEN conjunct1] t4 [THEN conjunct2] u
  show ?thesis by simp
qed

text \<open>
  The claim as stated fails twice. A category with a space before the keyword is not
  matched, and \<^verbatim>\<open>readCat\<close> calls the API; and when the size check of the grumpy URL
  fails, \<^verbatim>\<open>readCat\<close> returns that failure.
\<close>

theorem readCat_grumpy_always_counterexample:
  "(set '' '' \<subseteq> set perl_space \<and> equal_fold ''no'' ''no''
     \<and> snd (realClowder_readCat go_lib (world_down 1) meow ('' '' @ ''no'') False)
         = [HttpGet ''https://api.thecatapi.com/v1/images/search?format=json&results_per_page=1&category=+no''])
   \<and> (fst (realClowder_readCat go_lib (world_down 1) meow ''no'' False)
        = Inl (''could not validate image size '' @ grumpyURL @ '': HEAD error: connection refused''))"
  by code_simp

text \<open>
  Claim C10. The pattern is compiled in multi-line mode: whenever some line of the
  category is \<^verbatim>\<open>no\<close> or \<^verbatim>\<open>grumpy\<close>, in any case of the letters, followed by white
  space only, whatever the other lines hold, the pattern matches and \<^verbatim>\<open>readCat\<close> takes
  the grumpy branch: it validates the fixed grumpy image and makes no HTTP GET.
\<close>

theorem readCat_grumpy_multiline:
  assumes "l \<in> set (split_lines category)"
    and "l = k @ sp"
    and "equal_fold k ''no'' \<or> equal_fold k ''grumpy''"
    and "set sp \<subseteq> set perl_space"
  shows "MatchString grumpyKeywords category
       \<and> realClowder_readCat lib w c category movieCat =
           readCat_validate lib w (realClowder_URL lib c category movieCat) \<lparr>Image = grumpyURL\<rparr>
       \<and> snd (realClowder_readCat lib w c category movieCat) = [SizeCheck grumpyURL]"
proof -
  have m: "MatchString grumpyKeywords category"
    using assms by (rule grumpy_line_in_text)
  have img: "Image \<lparr>Image = grumpyURL\<rparr> \<noteq> []" by (simp add: grumpyURL_nonempty)
  show ?thesis
    using m readCat_grumpy [OF m, of lib w c movieCat] validate_events [OF img, of lib w]
    by simp
qed

theorem readCat_grumpy_multiline_witness:
  "''Grumpy '' \<in> set (split_lines (''cats in hats'' @ [newline] @ ''Grumpy '' @ [newline] @ ''please''))
   \<and> MatchString grumpyKeywords (''cats in hats'' @ [newline] @ ''Grumpy '' @ [newline] @ ''please'')
   \<and> snd (realClowder_readCat go_lib (world_down 1) meow
            (''cats in hats'' @ [newline] @ ''Grumpy '' @ [newline] @ ''please'') False)
       = [SizeCheck grumpyURL]"
proof -
  have l: "''Grumpy '' \<in> set (split_lines (''cats in hats'' @ [newline] @ ''Grumpy '' @ [newline] @ ''please''))"
    by (simp add: newline_def)
  have k: "equal_fold ''Grumpy'' ''no'' \<or> equal_fold ''Grumpy'' ''grumpy''"
    by (simp add: equal_fold_def simple_fold_def)
  have sp: "set '' '' \<subseteq> set perl_space" by (simp add: perl_space_def)
  have eq: "''Grumpy '' = ''Grumpy'' @ '' ''" by simp
  from readCat_grumpy_multiline [OF l eq k sp, of go_lib "world_down 1" meow False] l
  show ?thesis by blast
qed

lemma handle_loop_retry:
  assumes "i < 3" and "readCat cl category movieCat s = (Inl err, s1)"
  shows "handle_loop pl movieCat category spc e cl i s =
         (case handle_loop pl movieCat category spc e cl (Suc i) s1 of
            (x, hevs, s2) \<Rightarrow>
              (x, CallReadCat category movieCat # LogError ''Failed to get cat img'' err # hevs, s2))"
  using assms by (subst handle_loop.simps) simp

lemma readCat_toobig_grumpy:
  assumes "MatchString grumpyKeywords category"
    and "ImageTooBig w grumpyURL = (True, None)"
  shows "realClowder_readCat lib w c category movieCat =
         (Inl (''longcat is too long: '' @ grumpyURL), [SizeCheck grumpyURL])"
  using assms
  by (simp add: readCat_grumpy readCat_validate_def grumpyURL_nonempty)

lemma readCat_toobig_api:
  assumes "\<not> MatchString grumpyKeywords category"
    and "http_Get w (realClowder_URL lib c category movieCat) = Inr (sc, body)"
    and "200 \<le> sc" and "sc \<le> 299"
    and "json_Decode lib body = Inr (a # rest)"
    and "Image a \<noteq> []"
    and "ImageTooBig w (Image a) = (True, None)"
  shows "realClowder_readCat lib w c category movieCat =
         (Inl (''longcat is too long: '' @ Image a),
          [HttpGet (realClowder_URL lib c category movieCat), SizeCheck (Image a)])"
  using assms
  by (simp add: realClowder_readCat_def readCat_validate_def Let_def)

lemma readCat_clowder_of:
  "readCat (clowder_of lib ws c) category movieCat n =
     (fst (realClowder_readCat lib (ws n) c category movieCat), Suc n)"
  by (simp add: clowder_of_def)

text \<open>
  Claim C7. Whenever the size check of the image that \<^verbatim>\<open>readCat\<close> has obtained, the
  fixed grumpy URL when the pattern matches and otherwise the non-empty first URL of a
  2xx response of the API, reports without error that the image is too big,
  \<^verbatim>\<open>readCat\<close> returns an error whose message contains that URL and the words
  \<^verbatim>\<open>too long\<close>, after the size check as its last call to the outside. When an attempt
  of the loop of \<^verbatim>\<open>handle\<close> gets this result from its retriever, in particular from a
  \<open>realClowder\<close> in such a world, the loop logs the error and goes on with the next
  round instead of returning.
\<close>

theorem readCat_too_long_retried:
  assumes "ImageTooBig w u = (True, None)"
    and "(MatchString grumpyKeywords category \<and> u = grumpyURL)
       \<or> (\<not> MatchString grumpyKeywords category
          \<and> http_Get w (realClowder_URL lib c category movieCat) = Inr (sc, body)
          \<and> 200 \<le> sc \<and> sc \<le> 299
          \<and> json_Decode lib body = Inr (a # rest)
          \<and> Image a = u \<and> u \<noteq> [])"
  shows "realClowder_readCat lib w c category movieCat =
           (Inl (''longcat is too long: '' @ u),
            (if MatchString grumpyKeywords category then []
             else [HttpGet (realClowder_URL lib c category movieCat)]) @ [SizeCheck u])
       \<and> sublist u (''longcat is too long: '' @ u)
       \<and> sublist ''too long'' (''longcat is too long: '' @ u)
       \<and> (i < 3 \<and> readCat cl category movieCat s = (Inl (''longcat is too long: '' @ u), s1) \<longrightarrow>
            handle_loop pl movieCat category spc e cl i s =
              (case handle_loop pl movieCat category spc e cl (Suc i) s1 of
                 (x, hevs, s2) \<Rightarrow>
                   (x, CallReadCat category movieCat
                       # LogError ''Failed to get cat img'' (''longcat is too long: '' @ u) # hevs, s2)))
       \<and> (i < 3 \<and> ws n = w \<longrightarrow>
            handle_loop pl movieCat category spcn e (clowder_of lib ws c) i n =
              (case handle_loop pl movieCat category spcn e (clowder_of lib ws c) (Suc i) (Suc n) of
                 (x, hevs, s2) \<Rightarrow>
                   (x, CallReadCat category movieCat
                       # LogError ''Failed to get cat img'' (''longcat is too long: '' @ u) # hevs, s2)))"
proof -
  have r: "realClowder_readCat lib w c category movieCat =
           (Inl (''longcat is too long: '' @ u),
            (if MatchString grumpyKeywords category then []
             else [HttpGet (realClowder_URL lib c category movieCat)]) @ [SizeCheck u])"
    using assms(2)
  proof
    assume g: "MatchString grumpyKeywords category \<and> u = grumpyURL"
    with assms(1) readCat_toobig_grumpy [of category w lib c movieCat] show ?thesis by simp
  next
    assume b: "\<not> MatchString grumpyKeywords category
          \<and> http_Get w (realClowder_URL lib c category movieCat) = Inr (sc, body)
          \<and> 200 \<le> sc \<and> sc \<le> 299
          \<and> json_Decode lib body = Inr (a # rest)
          \<and> Image a = u \<and> u \<noteq> []"
    with assms(1) readCat_toobig_api [of category w lib c movieCat sc body a rest]
    show ?thesis by simp
  qed
  have s1: "sublist u (''longcat is too long: '' @ u)"
    by (rule sublist_append_leftI)
  have "sublist ''too long'' (''longcat is '' @ ''too long'' @ '': '' @ u)"
    by (rule sublist_appendI)
  then have s2: "sublist ''too long'' (''longcat is too long: '' @ u)" by simp
  have h: "i < 3 \<and> readCat cl category movieCat s = (Inl (''longcat is too long: '' @ u), s1) \<longrightarrow>
            handle_loop pl movieCat category spc e cl i s =
              (case handle_loop pl movieCat category spc e cl (Suc i) s1 of
                 (x, hevs, s2) \<Rightarrow>
                   (x, CallReadCat category movieCat
                       # LogError ''Failed to get cat img'' (''longcat is too long: '' @ u) # hevs, s2))"
    using handle_loop_retry [of i cl category movieCat s "''longcat is too long: '' @ u" s1 pl spc e]
    by blast
  have hn: "i < 3 \<and> ws n = w \<longrightarrow>
            handle_loop pl movieCat category spcn e (clowder_of lib ws c) i n =
              (case handle_loop pl movieCat category spcn e (clowder_of lib ws c) (Suc i) (Suc n) of
                 (x, hevs, s2) \<Rightarrow>
                   (x, CallReadCat category movieCat
                       # LogError ''Failed to get cat img'' (''longcat is too long: '' @ u) # hevs, s2))"
  proof
    assume a: "i < 3 \<and> ws n = w"
    then have "readCat (clowder_of lib ws c) category movieCat n
               = (Inl (''longcat is too long: '' @ u), Suc n)"
      by (simp add: readCat_clowder_of r)
    with a handle_loop_retry [of i "clowder_of lib ws c" category movieCat n
        "''longcat is too long: '' @ u" "Suc n" pl spcn e]
    show "handle_loop pl movieCat category spcn e (clowder_of lib ws c) i n =
              (case handle_loop pl movieCat category spcn e (clowder_of lib ws c) (Suc i) (Suc n) of
                 (x, hevs, s2) \<Rightarrow>
                   (x, CallReadCat category movieCat
                       # LogError ''Failed to get cat img'' (''longcat is too long: '' @ u) # hevs, s2))"
      by blast
  qed
  from r s1 s2 h hn show ?thesis by blast
qed

theorem readCat_too_long_retried_witness:
  "realClowder_readCat go_lib (world_up 1 cat_body True) meow ''hats'' False
     = (Inl ''longcat is too long: https://example.com/cat.jpg'',
        [HttpGet ''https://api.thecatapi.com/v1/images/search?format=json&results_per_page=1&category=hats'',
         SizeCheck ''https://example.com/cat.jpg''])
   \<and> realClowder_readCat go_lib (world_up 1 cat_body True) meow ''no'' False
     = (Inl (''longcat is too long: '' @ grumpyURL), [SizeCheck grumpyURL])
   \<and> handle_loop plain_plugins False ''hats'' (poster None) meow_event
        (clowder_of go_lib (\<lambda>n. world_up 1 cat_body True) meow) 0 0
     = (Exhausted,
        [CallReadCat ''hats'' False,
         LogError ''Failed to get cat img'' ''longcat is too long: https://example.com/cat.jpg'',
         CallReadCat ''hats'' False,
         LogError ''Failed to get cat img'' ''longcat is too long: https://example.com/cat.jpg'',
         CallReadCat ''hats'' False,
         LogError ''Failed to get cat img'' ''longcat is too long: https://example.com/cat.jpg''],
        3)"
proof -
  let ?w = "world_up 1 cat_body True"
  let ?u = "''https://example.com/cat.jpg''"
  let ?cl = "clowder_of go_lib (\<lambda>n. ?w) meow"
  have big: "ImageTooBig ?w ?u = (True, None)" and bigg: "ImageTooBig ?w grumpyURL = (True, None)"
    by (simp_all add: world_up_def)
  have m: "\<not> MatchString grumpyKeywords ''hats''" by code_simp
  have mg: "MatchString grumpyKeywords ''no''" by code_simp
  have get: "http_Get ?w (realClowder_URL go_lib meow ''hats'' False) = Inr (200, cat_body)"
    by (simp add: world_up_def)
  have dec: "json_Decode go_lib cat_body = Inr (\<lparr>Image = ?u\<rparr> # [])"
    by code_simp
  have api: "(MatchString grumpyKeywords ''hats'' \<and> ?u = grumpyURL)
       \<or> (\<not> MatchString grumpyKeywords ''hats''
          \<and> http_Get ?w (realClowder_URL go_lib meow ''hats'' False) = Inr (200, cat_body)
          \<and> (200::int) \<le> 200 \<and> (200::int) \<le> 299
          \<and> json_Decode go_lib cat_body = Inr (\<lparr>Image = ?u\<rparr> # [])
          \<and> Image \<lparr>Image = ?u\<rparr> = ?u \<and> ?u \<noteq> [])"
    using m get dec by simp
  have gr: "(MatchString grumpyKeywords ''no'' \<and> grumpyURL = grumpyURL)
       \<or> (\<not> MatchString grumpyKeywords ''no''
          \<and> http_Get ?w (realClowder_URL go_lib meow ''no'' False) = Inr (200, cat_body)
          \<and> (200::int) \<le> 200 \<and> (200::int) \<le> 299
          \<and> json_Decode go_lib cat_body = Inr (\<lparr>Image = ?u\<rparr> # [])
          \<and> Image \<lparr>Image = ?u\<rparr> = grumpyURL \<and> grumpyURL \<noteq> [])"
    using mg by simp
  have url: "realClowder_URL go_lib meow ''hats'' False
      = ''https://api.thecatapi.com/v1/images/search?format=json&results_per_page=1&category=hats''"
    by code_simp
  note t = readCat_too_long_retried [OF big api, where i = 0 and ws = "\<lambda>n. ?w" and n = 0
      and pl = plain_plugins and spcn = "poster None" and e = meow_event]
  note tg = readCat_too_long_retried [OF bigg gr]
  have rest: "handle_loop plain_plugins False ''hats'' (poster None) meow_event ?cl (Suc 0) (Suc 0)
     = (Exhausted,
        [CallReadCat ''hats'' False,
         LogError ''Failed to get cat img'' ''longcat is too long: https://example.com/cat.jpg'',
         CallReadCat ''hats'' False,
         LogError ''Failed to get cat img'' ''longcat is too long: https://example.com/cat.jpg''],
        3)"
    by code_simp
  have now: "(0::nat) < 3 \<and> (\<lambda>n. ?w) (0::nat) = ?w" by simp
  from t [THEN conjunct1] m url
  have a1: "realClowder_readCat go_lib ?w meow ''hats'' False
     = (Inl ''longcat is too long: https://example.com/cat.jpg'',
        [HttpGet ''https://api.thecatapi.com/v1/images/search?format=json&results_per_page=1&category=hats'',
         SizeCheck ?u])"
    by simp
  from tg [THEN conjunct1] mg
  have a2: "realClowder_readCat go_lib ?w meow ''no'' False
     = (Inl (''longcat is too long: '' @ grumpyURL), [SizeCheck grumpyURL])"
    by simp
  from t [THEN conjunct2, THEN conjunct2, THEN conjunct2, THEN conjunct2, THEN mp, OF now] rest
  have a3: "handle_loop plain_plugins False ''hats'' (poster None) meow_event ?cl 0 0
     = (Exhausted,
        [CallReadCat ''hats'' False,
         LogError ''Failed to get cat img'' ''longcat is too long: https://example.com/cat.jpg'',
         CallReadCat ''hats'' False,
         LogError ''Failed to get cat img'' ''longcat is too long: https://example.com/cat.jpg'',
         CallReadCat ''hats'' False,
         LogError ''Failed to get cat img'' ''longcat is too long: https://example.com/cat.jpg''],
        3)"
    by simp
  from a1 a2 a3 show ?thesis by blast
qed

lemma readCat_api_validate:
  assumes "\<not> MatchString grumpyKeywords category"
    and "http_Get w (realClowder_URL lib c category movieCat) = Inr (sc, body)"
    and "200 \<le> sc" and "sc \<le> 299"
    and "json_Decode lib body = Inr (a # rest)"
  shows "fst (realClowder_readCat lib w c category movieCat) =
         fst (readCat_validate lib w (realClowder_URL lib c category movieCat) a)"
  using assms by (simp add: realClowder_readCat_def Let_def split: prod.splits)

text \<open>
  Claim C8, as the code has it. For every response of the API with a status from 200 to
  299 whose body decodes to an array with a non-empty first URL that passes the size
  check: when \<^verbatim>\<open>url.Parse\<close> accepts the URL, \<^verbatim>\<open>readCat\<close> returns without error the
  embed \<^verbatim>\<open>![cat image](...)\<close> of the parsed URL as \<^verbatim>\<open>%s\<close> prints it, which contains the
  URL character for character when parsing leaves it unchanged; when \<^verbatim>\<open>url.Parse\<close>
  rejects the URL, \<^verbatim>\<open>readCat\<close> returns the error \<^verbatim>\<open>invalid image url\<close>.
\<close>

theorem readCat_success_embed:
  assumes "\<not> MatchString grumpyKeywords category"
    and "http_Get w (realClowder_URL lib c category movieCat) = Inr (sc, body)"
    and "200 \<le> sc" and "sc \<le> 299"
    and "json_Decode lib body = Inr (a # rest)"
    and "Image a \<noteq> []"
    and "ImageTooBig w (Image a) = (False, None)"
  shows "(url_Parse lib (Image a) = Inr img \<longrightarrow>
            fst (realClowder_readCat lib w c category movieCat) = Inr (''![cat image]('' @ img @ '')''))
       \<and> (url_Parse lib (Image a) = Inr (Image a) \<longrightarrow>
            sublist (Image a) (''![cat image]('' @ Image a @ '')'') \<and>
            fst (realClowder_readCat lib w c category movieCat) = Inr (''![cat image]('' @ Image a @ '')''))
       \<and> (url_Parse lib (Image a) = Inl err \<longrightarrow>
            fst (realClowder_readCat lib w c category movieCat) =
              Inl (''invalid image url '' @ Image a @ '': '' @ err))"
proof -
  have f: "fst (realClowder_readCat lib w c category movieCat) = catResult_Format lib a"
    using readCat_api_validate [OF assms(1-5)] validate_ok [OF assms(6,7)] by simp
  have p: "url_Parse lib (Image a) = Inr x \<Longrightarrow>
           fst (realClowder_readCat lib w c category movieCat) = Inr (''![cat image]('' @ x @ '')'')" for x
    using assms(6) by (simp add: f catResult_Format_def)
  have q: "url_Parse lib (Image a) = Inl err \<Longrightarrow>
           fst (realClowder_readCat lib w c category movieCat) =
             Inl (''invalid image url '' @ Image a @ '': '' @ err)"
    using assms(6) by (simp add: f catResult_Format_def)
  have sub: "sublist (Image a) (''![cat image]('' @ Image a @ '')'')"
    by (rule sublist_appendI)
  from p q sub show ?thesis by blast
qed

theorem readCat_success_embed_witness:
  "fst (realClowder_readCat go_lib (world_up 1 cat_body False) meow ''hats'' True)
     = Inr ''![cat image](https://example.com/cat.jpg)''
   \<and> sublist ''https://example.com/cat.jpg'' ''![cat image](https://example.com/cat.jpg)''
   \<and> fst (realClowder_readCat go_lib (world_up 1 del_body False) meow ''hats'' True)
     = Inl (''invalid image url http://example.com/'' @ [CHR 0x7F]
            @ '': net/url: invalid control character in URL'')"
proof -
  have m: "\<not> MatchString grumpyKeywords ''hats''" by code_simp
  have g1: "http_Get (world_up 1 cat_body False) (realClowder_URL go_lib meow ''hats'' True)
            = Inr (200, cat_body)"
    by (simp add: world_up_def)
  have g2: "http_Get (world_up 1 del_body False) (realClowder_URL go_lib meow ''hats'' True)
            = Inr (200, del_body)"
    by (simp add: world_up_def)
  have d1: "json_Decode go_lib cat_body = Inr (\<lparr>Image = ''https://example.com/cat.jpg''\<rparr> # [])"
    by code_simp
  have d2: "json_Decode go_lib del_body = Inr (\<lparr>Image = ''http://example.com/'' @ [CHR 0x7F]\<rparr> # [])"
    by code_simp
  have p1: "url_Parse go_lib ''https://example.com/cat.jpg'' = Inr ''https://example.com/cat.jpg''"
    by (simp add: go_lib_def)
  have p2: "url_Parse go_lib (''http://example.com/'' @ [CHR 0x7F])
            = Inl ''net/url: invalid control character in URL''"
    by (simp add: go_lib_def)
  from readCat_success_embed [OF m g1 _ _ d1, of "''https://example.com/cat.jpg''" "[]"]
    readCat_success_embed [OF m g2 _ _ d2, of "[]" "''net/url: invalid control character in URL''"]
    p1 p2
  show ?thesis by (simp add: world_up_def)
qed

text \<open>
  The claim as stated fails twice. A URL whose scheme is written in capitals passes
  every check and is embedded with the scheme in small letters, so the embed does not
  contain the URL as it came; and a URL with a control byte that passes the size check
  is rejected by \<^verbatim>\<open>url.Parse\<close>, so \<^verbatim>\<open>readCat\<close> returns an error.
\<close>

theorem readCat_exact_url_counterexample:
  "\<not> MatchString grumpyKeywords []
   \<and> http_Get (world_up 1 shouting_body False) (realClowder_URL go_lib meow [] False)
       = Inr (200, shouting_body)
   \<and> json_Decode go_lib shouting_body = Inr [\<lparr>Image = ''HTTP://example.com/cat.jpg''\<rparr>]
   \<and> ImageTooBig (world_up 1 shouting_body False) ''HTTP://example.com/cat.jpg'' = (False, None)
   \<and> fst (realClowder_readCat go_lib (world_up 1 shouting_body False) meow [] False)
       = Inr ''![cat image](http://example.com/cat.jpg)''
   \<and> \<not> sublist ''HTTP://example.com/cat.jpg'' ''![cat image](http://example.com/cat.jpg)''
   \<and> json_Decode go_lib del_body = Inr [\<lparr>Image = ''http://example.com/'' @ [CHR 0x7F]\<rparr>]
   \<and> ImageTooBig (world_up 1 del_body False) (''http://example.com/'' @ [CHR 0x7F]) = (False, None)
   \<and> isl (fst (realClowder_readCat go_lib (world_up 1 del_body False) meow [] False))"
  by code_simp

section \<open>The handler\<close>

lemma retriever_calls_simps:
  "retriever_calls [] = 0"
  "retriever_calls (CallReadCat x y # evs) = Suc (retriever_calls evs)"
  "retriever_calls (LogError m err # evs) = retriever_calls evs"
  "retriever_calls (CallSetKey # evs) = retriever_calls evs"
  "retriever_calls (CallCreateComment a b n p t # evs) = retriever_calls evs"
  "retriever_calls (evs @ evs') = retriever_calls evs + retriever_calls evs'"
  "retriever_calls (comment_event pl spc e reply # evs) = retriever_calls evs"
  by (simp_all add: retriever_calls_def is_CallReadCat_def comment_event_def)

lemma comments_simps:
  "comments [] = []"
  "comments (CallReadCat x y # evs) = comments evs"
  "comments (LogError m err # evs) = comments evs"
  "comments (CallSetKey # evs) = comments evs"
  "comments (CallCreateComment a b n p t # evs) = CallCreateComment a b n p t # comments evs"
  "comments (evs @ evs') = comments evs @ comments evs'"
  "comments (comment_event pl spc e reply # evs) = comment_event pl spc e reply # comments evs"
  by (simp_all add: comments_def is_CallCreateComment_def comment_event_def)

lemma retry_events_calls: "retriever_calls (retry_events category movieCat errs) = length errs"
  by (induction errs) (simp_all add: retry_events_def retriever_calls_simps)

lemma retry_events_comments: "comments (retry_events category movieCat errs) = []"
  by (induction errs) (simp_all add: retry_events_def comments_simps)

lemma post_comment_events:
  "fst (snd (post_comment pl spc e reply s)) = [comment_event pl spc e reply]"
  by (simp add: post_comment_def split: prod.splits)

lemma handle_loop_success_at:
  assumes "fst (attempts c category movieCat (Suc (length errs)) s) = map Inl errs @ [Inr resp]"
    and "i + length errs < 3"
  shows "handle_loop pl movieCat category spc e c i s =
     (case post_comment pl spc e resp (snd (attempts c category movieCat (Suc (length errs)) s)) of
        (r, evs, s2) \<Rightarrow>
          (Returned r, retry_events category movieCat errs @ CallReadCat category movieCat # evs, s2))"
  using assms
proof (induction errs arbitrary: i s)
  case Nil
  then show ?case
    by (subst handle_loop.simps) (auto simp: retry_events_def split: prod.splits sum.splits)
next
  case (Cons err errs)
  obtain r s1 where rc: "readCat c category movieCat s = (r, s1)" by (cases "readCat c category movieCat s")
  obtain rs s2 where at: "attempts c category movieCat (Suc (length errs)) s1 = (rs, s2)"
    by (cases "attempts c category movieCat (Suc (length errs)) s1")
  from Cons.prems(1) rc at have r: "r = Inl err" and rs: "rs = map Inl errs @ [Inr resp]"
    by simp_all
  from Cons.prems(2) have i: "i < 3" "Suc i + length errs < 3" by simp_all
  have ih: "handle_loop pl movieCat category spc e c (Suc i) s1 =
     (case post_comment pl spc e resp s2 of
        (r, evs, s3) \<Rightarrow>
          (Returned r, retry_events category movieCat errs @ CallReadCat category movieCat # evs, s3))"
    using Cons.IH [of s1 "Suc i"] at rs i by simp
  have s2: "snd (attempts c category movieCat (Suc (length (err # errs))) s) = s2"
    using rc at by simp
  show ?case
    unfolding s2
    by (subst handle_loop.simps) (simp add: i rc r ih retry_events_def split: prod.splits)
qed


lemma handle_loop_calls:
  "retriever_calls (fst (snd (handle_loop pl movieCat category spc e c i s))) \<le> 3 - i"
proof (induction pl movieCat category spc e c i s rule: handle_loop.induct)
  case (1 pl movieCat category spc e c i s)
  show ?case
  proof (cases "i < 3")
    case False
    then show ?thesis by (subst handle_loop.simps) (simp add: retriever_calls_simps)
  next
    case True
    obtain r s1 where rc: "readCat c category movieCat s = (r, s1)" by (cases "readCat c category movieCat s")
    show ?thesis
    proof (cases r)
      case (Inl err)
      from "1.IH" [OF True rc [symmetric] Inl]
      have "retriever_calls (fst (snd (handle_loop pl movieCat category spc e c (Suc i) s1))) \<le> 3 - Suc i" .
      with True show ?thesis
        by (subst handle_loop.simps) (auto simp add: rc Inl retriever_calls_simps split: prod.splits)
    next
      case (Inr resp)
      have "retriever_calls (fst (snd (post_comment pl spc e resp s1))) = 0"
        by (simp add: post_comment_events retriever_calls_simps)
      with True show ?thesis
        by (subst handle_loop.simps) (auto simp add: rc Inr retriever_calls_simps split: prod.splits)
    qed
  qed
qed

lemma handle_calls_le: 
  "retriever_calls (fst (snd (handle pl movieCat category spc e c setKey s))) \<le> 3"
proof -
  obtain x evs s1 where hl: "handle_loop pl movieCat category spc e c 0 (setKey s) = (x, evs, s1)"
    by (cases "handle_loop pl movieCat category spc e c 0 (setKey s)")
  from handle_loop_calls [of pl movieCat category spc e c 0 "setKey s"] hl
  have le: "retriever_calls evs \<le> 3" by simp
  show ?thesis
  proof (cases x)
    case (Returned r)
    with hl le show ?thesis by (simp add: handle_def retriever_calls_simps)
  next
    case Exhausted
    define msg where "msg = (if category \<noteq> []
        then ''Bad category. Please see https://api.thecatapi.com/api/categories/list''
        else ''https://thecatapi.com appears to be down'')"
    obtain perr pevs s2 where pc: "post_comment pl spc e msg s1 = (perr, pevs, s2)"
      by (cases "post_comment pl spc e msg s1")
    have "retriever_calls pevs = 0"
      using post_comment_events [of pl spc e msg s1] pc
      by (simp add: retriever_calls_simps)
    with Exhausted hl le pc show ?thesis
      unfolding handle_def Let_def msg_def [symmetric]
      by (simp add: retriever_calls_simps split: option.splits)
  qed
qed

lemma handle_success:
  assumes "fst (attempts c category movieCat (Suc (length errs)) (setKey s)) = map Inl errs @ [Inr resp]"
    and "length errs < 3"
  shows "handle pl movieCat category spc e c setKey s =
     (case CreateComment spc (Namespace (Repo e)) (Name (Repo e)) (Number e) (IsPR e)
             (response_body pl spc e resp)
             (snd (attempts c category movieCat (Suc (length errs)) (setKey s))) of
        (r, s2) \<Rightarrow>
          (r, CallSetKey # retry_events category movieCat errs
                @ [CallReadCat category movieCat, comment_event pl spc e resp], s2))"
proof -
  from assms(2) have "0 + length errs < 3" by simp
  from handle_loop_success_at [where s = "setKey s" and i = 0 and pl = pl and spc = spc and e = e,
      OF assms(1) this]
  show ?thesis
    by (simp add: handle_def post_comment_def del: attempts.simps split: prod.splits)
qed



text \<open>
  Claim C2. For every retriever, \<^verbatim>\<open>handle\<close> calls the retriever at most 3 times. If the
  first calls fail with the errors \<open>errs\<close>, fewer than 3 of them, and the next call
  succeeds with \<open>resp\<close>, so that the call number \<open>k = length errs + 1\<close> is the first to
  succeed, then \<^verbatim>\<open>handle\<close> makes exactly \<open>k\<close> retriever calls and then calls
  \<^verbatim>\<open>CreateComment\<close> once, with the formatted \<open>resp\<close>, in the state the retriever has
  left: what \<^verbatim>\<open>handle\<close> returns and the state it leaves are what that call returns and
  leaves. It posts no other comment; and if that call returns no error, \<^verbatim>\<open>handle\<close>
  returns no error.
\<close>

theorem handle_first_success:
  "retriever_calls (fst (snd (handle pl movieCat category spc e c setKey s))) \<le> 3
   \<and> (fst (attempts c category movieCat (Suc (length errs)) (setKey s)) = map Inl errs @ [Inr resp]
        \<and> length errs < 3 \<longrightarrow>
        handle pl movieCat category spc e c setKey s =
          (case CreateComment spc (Namespace (Repo e)) (Name (Repo e)) (Number e) (IsPR e)
                  (response_body pl spc e resp)
                  (snd (attempts c category movieCat (Suc (length errs)) (setKey s))) of
             (r, s2) \<Rightarrow>
               (r, CallSetKey # retry_events category movieCat errs
                     @ [CallReadCat category movieCat, comment_event pl spc e resp], s2))
        \<and> fst (snd (handle pl movieCat category spc e c setKey s)) =
          CallSetKey # retry_events category movieCat errs
            @ [CallReadCat category movieCat, comment_event pl spc e resp]
        \<and> retriever_calls (fst (snd (handle pl movieCat category spc e c setKey s))) = Suc (length errs)
        \<and> comments (fst (snd (handle pl movieCat category spc e c setKey s))) =
            [comment_event pl spc e resp]
        \<and> (fst (CreateComment spc (Namespace (Repo e)) (Name (Repo e)) (Number e) (IsPR e)
                  (response_body pl spc e resp)
                  (snd (attempts c category movieCat (Suc (length errs)) (setKey s)))) = None \<longrightarrow>
             fst (handle pl movieCat category spc e c setKey s) = None))"
proof (intro conjI impI)
  show "retriever_calls (fst (snd (handle pl movieCat category spc e c setKey s))) \<le> 3"
    by (rule handle_calls_le)
next
  assume a: "fst (attempts c category movieCat (Suc (length errs)) (setKey s)) = map Inl errs @ [Inr resp]
        \<and> length errs < 3"
  then show h: "handle pl movieCat category spc e c setKey s =
     (case CreateComment spc (Namespace (Repo e)) (Name (Repo e)) (Number e) (IsPR e)
             (response_body pl spc e resp)
             (snd (attempts c category movieCat (Suc (length errs)) (setKey s))) of
        (r, s2) \<Rightarrow>
          (r, CallSetKey # retry_events category movieCat errs
                @ [CallReadCat category movieCat, comment_event pl spc e resp], s2))"
    using handle_success [where c = c and category = category and movieCat = movieCat
        and errs = errs and setKey = setKey and s = s and resp = resp and pl = pl and spc = spc
        and e = e]
    by blast
  show ev: "fst (snd (handle pl movieCat category spc e c setKey s)) =
          CallSetKey # retry_events category movieCat errs
            @ [CallReadCat category movieCat, comment_event pl spc e resp]"
    by (simp add: h del: attempts.simps split: prod.splits)
  show "retriever_calls (fst (snd (handle pl movieCat category spc e c setKey s))) = Suc (length errs)"
    by (simp add: ev retriever_calls_simps retry_events_calls)
  show "comments (fst (snd (handle pl movieCat category spc e c setKey s))) =
            [comment_event pl spc e resp]"
    by (simp add: ev comments_simps retry_events_comments)
  assume "fst (CreateComment spc (Namespace (Repo e)) (Name (Repo e)) (Number e) (IsPR e)
                  (response_body pl spc e resp)
                  (snd (attempts c category movieCat (Suc (length errs)) (setKey s)))) = None"
  then show "fst (handle pl movieCat category spc e c setKey s) = None"
    by (auto simp add: h simp del: attempts.simps split: prod.splits)
qed

theorem handle_first_success_witness:
  "fst (attempts (flaky_keeping 2) ''hats'' False (Suc (length [''no cats today'', ''no cats today'']))
         (0, []))
     = map Inl [''no cats today'', ''no cats today''] @ [Inr ''![cat image](https://example.com/cat.jpg)'']
   \<and> handle plain_plugins False ''hats'' (recording_poster None) meow_event (flaky_keeping 2)
        (\<lambda>s. s) (0, [])
     = (None,
        [CallSetKey,
         CallReadCat ''hats'' False, LogError ''Failed to get cat img'' ''no cats today'',
         CallReadCat ''hats'' False, LogError ''Failed to get cat img'' ''no cats today'',
         CallReadCat ''hats'' False,
         CallCreateComment ''org'' ''repo'' 5 True ''@alice: ![cat image](https://example.com/cat.jpg)''],
        (3, [''@alice: ![cat image](https://example.com/cat.jpg)'']))
   \<and> retriever_calls (fst (snd (handle plain_plugins False ''hats'' (recording_poster None) meow_event
         (flaky_keeping 2) (\<lambda>s. s) (0, [])))) = 3
   \<and> comments (fst (snd (handle plain_plugins False ''hats'' (recording_poster None) meow_event
         (flaky_keeping 2) (\<lambda>s. s) (0, []))))
     = [CallCreateComment ''org'' ''repo'' 5 True ''@alice: ![cat image](https://example.com/cat.jpg)'']"
proof -
  have a: "fst (attempts (flaky_keeping 2) ''hats'' False
             (Suc (length [''no cats today'', ''no cats today''])) (0, []))
     = map Inl [''no cats today'', ''no cats today''] @ [Inr ''![cat image](https://example.com/cat.jpg)'']"
    by (simp add: flaky_keeping_def)
  have sn: "snd (attempts (flaky_keeping 2) ''hats'' False
             (Suc (length [''no cats today'', ''no cats today''])) (0, [])) = (3, [])"
    by (simp add: flaky_keeping_def)
  have l: "length [''no cats today'', ''no cats today''] < 3" by simp
  have c: "comment_event plain_plugins (recording_poster None) meow_event
             ''![cat image](https://example.com/cat.jpg)''
           = CallCreateComment ''org'' ''repo'' 5 True ''@alice: ![cat image](https://example.com/cat.jpg)''"
    by (simp add: comment_event_def response_body_def plain_plugins_def recording_poster_def
        meow_event_def)
  have p: "CreateComment (recording_poster None) (Namespace (Repo meow_event)) (Name (Repo meow_event))
             (Number meow_event) (IsPR meow_event)
             (response_body plain_plugins (recording_poster None) meow_event
                ''![cat image](https://example.com/cat.jpg)'')
             (3, [])
           = (None, (3, [''@alice: ![cat image](https://example.com/cat.jpg)'']))"
    by (simp add: response_body_def plain_plugins_def recording_poster_def meow_event_def)
  note t = handle_first_success [where pl = plain_plugins and movieCat = False
      and category = "''hats''" and spc = "recording_poster None" and e = meow_event
      and c = "flaky_keeping 2" and setKey = "\<lambda>s. s" and s = "(0, [])"
      and errs = "[''no cats today'', ''no cats today'']"
      and resp = "''![cat image](https://example.com/cat.jpg)''"]
  note u = t [THEN conjunct2, THEN mp, OF conjI [OF a l]]
  note eq = u [THEN conjunct1]
  note rc = u [THEN conjunct2, THEN conjunct2, THEN conjunct1]
  note cm = u [THEN conjunct2, THEN conjunct2, THEN conjunct2, THEN conjunct1]
  have h: "handle plain_plugins False ''hats'' (recording_poster None) meow_event (flaky_keeping 2)
        (\<lambda>s. s) (0, [])
     = (None,
        [CallSetKey,
         CallReadCat ''hats'' False, LogError ''Failed to get cat img'' ''no cats today'',
         CallReadCat ''hats'' False, LogError ''Failed to get cat img'' ''no cats today'',
         CallReadCat ''hats'' False,
         CallCreateComment ''org'' ''repo'' 5 True ''@alice: ![cat image](https://example.com/cat.jpg)''],
        (3, [''@alice: ![cat image](https://example.com/cat.jpg)'']))"
    unfolding eq sn p by (simp add: c retry_events_def)
  from a h rc cm c show ?thesis by simp
qed



text \<open>
  Claim C9. If the first calls of the retriever fail, fewer than 3 of them, the next
  call succeeds, and the call that posts the success comment returns an error, then
  \<^verbatim>\<open>handle\<close> returns that error. The posting call is its last action: it makes no
  further retriever call and posts no fallback message.
\<close>

theorem handle_post_failure:
  assumes "fst (attempts c category movieCat (Suc (length errs)) (setKey s)) = map Inl errs @ [Inr resp]"
    and "length errs < 3"
    and "fst (CreateComment spc (Namespace (Repo e)) (Name (Repo e)) (Number e) (IsPR e)
                (response_body pl spc e resp)
                (snd (attempts c category movieCat (Suc (length errs)) (setKey s)))) = Some perr"
  shows "fst (handle pl movieCat category spc e c setKey s) = Some perr
       \<and> fst (snd (handle pl movieCat category spc e c setKey s)) =
           CallSetKey # retry_events category movieCat errs
             @ [CallReadCat category movieCat, comment_event pl spc e resp]
       \<and> retriever_calls (fst (snd (handle pl movieCat category spc e c setKey s))) = Suc (length errs)
       \<and> comments (fst (snd (handle pl movieCat category spc e c setKey s))) =
           [comment_event pl spc e resp]"
proof -
  note h = handle_success [where setKey = setKey and s = s and pl = pl and spc = spc and e = e,
      OF assms(1,2)]
  have ev: "fst (snd (handle pl movieCat category spc e c setKey s)) =
           CallSetKey # retry_events category movieCat errs
             @ [CallReadCat category movieCat, comment_event pl spc e resp]"
    by (simp add: h del: attempts.simps split: prod.splits)
  have r: "fst (handle pl movieCat category spc e c setKey s) = Some perr"
    using assms(3) by (auto simp add: h simp del: attempts.simps split: prod.splits)
  show ?thesis
    by (simp add: r ev retriever_calls_simps retry_events_calls comments_simps retry_events_comments)
qed

theorem handle_post_failure_witness:
  "fst (attempts (flaky 1) ''hats'' True (Suc (length [''no cats today''])) 0)
     = map Inl [''no cats today''] @ [Inr ''![cat image](https://example.com/cat.jpg)'']
   \<and> handle plain_plugins True ''hats'' (poster (Some ''403 Forbidden'')) meow_event (flaky 1) (\<lambda>s. s) 0
     = (Some ''403 Forbidden'',
        [CallSetKey,
         CallReadCat ''hats'' True, LogError ''Failed to get cat img'' ''no cats today'',
         CallReadCat ''hats'' True,
         CallCreateComment ''org'' ''repo'' 5 True ''@alice: ![cat image](https://example.com/cat.jpg)''],
        2)"
proof -
  have a: "fst (attempts (flaky 1) ''hats'' True (Suc (length [''no cats today''])) 0)
     = map Inl [''no cats today''] @ [Inr ''![cat image](https://example.com/cat.jpg)'']"
    by (simp add: flaky_def)
  have l: "length [''no cats today''] < 3" by simp
  have p: "fst (CreateComment (poster (Some ''403 Forbidden'')) (Namespace (Repo meow_event))
             (Name (Repo meow_event)) (Number meow_event) (IsPR meow_event)
             (response_body plain_plugins (poster (Some ''403 Forbidden'')) meow_event
                ''![cat image](https://example.com/cat.jpg)'')
             (snd (attempts (flaky 1) ''hats'' True (Suc (length [''no cats today''])) 0)))
           = Some ''403 Forbidden''"
    by (simp add: poster_def)
  have s: "snd (snd (handle plain_plugins True ''hats'' (poster (Some ''403 Forbidden'')) meow_event
             (flaky 1) (\<lambda>s. s) 0)) = 2"
    by code_simp
  have c: "comment_event plain_plugins (poster (Some ''403 Forbidden'')) meow_event
             ''![cat image](https://example.com/cat.jpg)''
           = CallCreateComment ''org'' ''repo'' 5 True ''@alice: ![cat image](https://example.com/cat.jpg)''"
    by (simp add: comment_event_def response_body_def plain_plugins_def poster_def meow_event_def)
  note t = handle_post_failure [where setKey = "\<lambda>s. s" and s = 0 and pl = plain_plugins
      and e = meow_event, OF a l p]
  from t s c have "handle plain_plugins True ''hats'' (poster (Some ''403 Forbidden'')) meow_event
       (flaky 1) (\<lambda>s. s) 0
     = (Some ''403 Forbidden'',
        [CallSetKey,
         CallReadCat ''hats'' True, LogError ''Failed to get cat img'' ''no cats today'',
         CallReadCat ''hats'' True,
         CallCreateComment ''org'' ''repo'' 5 True ''@alice: ![cat image](https://example.com/cat.jpg)''],
        2)"
    by (simp add: prod_eq_iff retry_events_def)
  with a show ?thesis by blast
qed

section \<open>The refresh window\<close>

lemma file_reads_setKey_le: "file_reads (snd (realClowder_setKey lib w path c)) \<le> 1"
  by (simp add: realClowder_setKey_def file_reads_def is_ReadFile_def Let_def split: sum.splits)

lemma file_reads_setKey:
  "file_reads (snd (realClowder_setKey lib w path c)) =
     (if update c < time_Now w 0 \<and> path \<noteq> [] then 1 else 0)"
  by (simp add: realClowder_setKey_def file_reads_def is_ReadFile_def Let_def split: sum.splits)

lemma update_setKey:
  "update (fst (realClowder_setKey lib w path c)) =
     (if update c < time_Now w 0 then time_Now w 1 + minute else update c)"
  by (simp add: realClowder_setKey_def Let_def split: sum.splits)

lemma update_setKey_mono:
  assumes "time_Now w 0 \<le> time_Now w 1"
  shows "update c \<le> update (fst (realClowder_setKey lib w path c))"
  using assms by (simp add: update_setKey minute_def)

lemma setKey_run_nth:
  "j < length calls \<Longrightarrow>
   setKey_run lib c calls ! j =
     snd (realClowder_setKey lib (fst (calls ! j)) (snd (calls ! j)) (setKey_after lib c (take j calls)))"
proof (induction calls arbitrary: c j)
  case Nil
  then show ?case by simp
next
  case (Cons call calls)
  obtain w path where call: "call = (w, path)" by (cases call)
  show ?case
  proof (cases j)
    case 0
    then show ?thesis by (simp add: call split: prod.splits)
  next
    case (Suc j')
    with Cons.prems have "j' < length calls" by simp
    from Cons.IH [OF this, of "fst (realClowder_setKey lib w path c)"] Suc
    show ?thesis by (auto simp add: call split: prod.splits)
  qed
qed

lemma setKey_after_mono:
  assumes "\<forall>(w, path) \<in> set calls. time_Now w 0 \<le> time_Now w 1"
  shows "update c \<le> update (setKey_after lib c calls)"
  using assms
proof (induction calls arbitrary: c)
  case Nil
  then show ?case by simp
next
  case (Cons call calls)
  obtain w path where call: "call = (w, path)" by (cases call)
  from Cons.prems call have w: "time_Now w 0 \<le> time_Now w 1"
    and rest: "\<forall>(w, path) \<in> set calls. time_Now w 0 \<le> time_Now w 1" by auto
  from update_setKey_mono [OF w, of c lib path]
    Cons.IH [OF rest, of "fst (realClowder_setKey lib w path c)"]
  show ?case by (simp add: call)
qed

lemma setKey_after_Cons:
  "setKey_after lib c (call # calls) =
     setKey_after lib (fst (realClowder_setKey lib (fst call) (snd call) c)) calls"
  by (cases call) simp

lemma setKey_after_append:
  "setKey_after lib c (xs @ ys) = setKey_after lib (setKey_after lib c xs) ys"
  by (induction xs arbitrary: c) auto

text \<open>
  Once invocation \<open>i\<close> has read the file, the deadline in force for every later
  invocation is at least one minute after the second clock reading of \<open>i\<close>.
\<close>

lemma deadline_after_read:
  assumes mono: "\<forall>(w, path) \<in> set calls. time_Now w 0 \<le> time_Now w 1"
    and ij: "i < j" "j < length calls"
    and rd: "file_reads (setKey_run lib c calls ! i) \<noteq> 0"
  shows "time_Now (fst (calls ! i)) 1 + minute \<le> update (setKey_after lib c (take j calls))"
proof -
  let ?ci = "setKey_after lib c (take i calls)"
  let ?wi = "fst (calls ! i)" and ?pi = "snd (calls ! i)"
  from ij have i: "i < length calls" by simp
  from rd setKey_run_nth [OF i, of lib c]
  have "update ?ci < time_Now ?wi 0"
    by (simp add: file_reads_setKey split: if_splits)
  then have up: "update (fst (realClowder_setKey lib ?wi ?pi ?ci)) = time_Now ?wi 1 + minute"
    by (simp add: update_setKey)
  have split: "take j calls = take i calls @ (calls ! i) # take (j - Suc i) (drop (Suc i) calls)"
  proof -
    from ij have "take j calls = take (Suc i + (j - Suc i)) calls" by simp
    also have "\<dots> = take (Suc i) calls @ take (j - Suc i) (drop (Suc i) calls)"
      by (rule take_add)
    also have "take (Suc i) calls = take i calls @ [calls ! i]"
      using i by (rule take_Suc_conv_app_nth)
    finally show ?thesis by simp
  qed
  have rest: "\<forall>(w, path) \<in> set (take (j - Suc i) (drop (Suc i) calls)). time_Now w 0 \<le> time_Now w 1"
    using mono by (meson in_set_dropD in_set_takeD)
  have "setKey_after lib c (take j calls) =
        setKey_after lib (fst (realClowder_setKey lib ?wi ?pi ?ci)) (take (j - Suc i) (drop (Suc i) calls))"
    by (subst split) (simp only: setKey_after_append setKey_after_Cons)
  with setKey_after_mono [OF rest, of "fst (realClowder_setKey lib ?wi ?pi ?ci)" lib] up
  show ?thesis by simp
qed

lemma setKey_after_take_Suc:
  assumes "j < length calls"
  shows "setKey_after lib c (take (Suc j) calls) =
         fst (realClowder_setKey lib (fst (calls ! j)) (snd (calls ! j))
                (setKey_after lib c (take j calls)))"
proof -
  have "take (Suc j) calls = take j calls @ [calls ! j]"
    using assms by (rule take_Suc_conv_app_nth)
  then show ?thesis
    by (simp only: setKey_after_append setKey_after_Cons setKey_after.simps)
qed

lemma setKey_no_refresh:
  "\<not> update c < time_Now w 0 \<Longrightarrow> realClowder_setKey lib w path c = (c, [])"
  by (simp add: realClowder_setKey_def)

lemma setKey_empty_path_key:
  "update c < time_Now w 0 \<Longrightarrow> key (fst (realClowder_setKey lib w [] c)) = []"
  by (simp add: realClowder_setKey_def Let_def)

text \<open>
  After a refresh by invocation \<open>i\<close>, and as long as the later invocations start no
  more than one minute after the second clock reading of \<open>i\<close>, the deadline in force is
  that reading plus one minute.
\<close>

lemma deadline_in_force:
  assumes "refreshes lib c calls i"
    and "i < j" and "j \<le> length calls"
    and "\<forall>k. i < k \<and> k < j \<longrightarrow> time_Now (fst (calls ! k)) 0 \<le> time_Now (fst (calls ! i)) 1 + minute"
  shows "update (setKey_after lib c (take j calls)) = time_Now (fst (calls ! i)) 1 + minute"
  using assms(2-4)
proof (induction j)
  case 0
  then show ?case by simp
next
  case (Suc j)
  from Suc.prems have j: "j < length calls" by simp
  note step = setKey_after_take_Suc [OF j, of lib c]
  show ?case
  proof (cases "i = j")
    case True
    with assms(1) show ?thesis
      by (simp add: step update_setKey refreshes_def)
  next
    case False
    with Suc.prems have ij: "i < j" by simp
    from Suc.prems have "\<forall>k. i < k \<and> k < j \<longrightarrow>
        time_Now (fst (calls ! k)) 0 \<le> time_Now (fst (calls ! i)) 1 + minute" by simp
    from Suc.IH [OF ij _ this] j
    have d: "update (setKey_after lib c (take j calls)) = time_Now (fst (calls ! i)) 1 + minute"
      by simp
    from Suc.prems ij have "time_Now (fst (calls ! j)) 0 \<le> time_Now (fst (calls ! i)) 1 + minute"
      by simp
    with d show ?thesis by (simp add: step update_setKey)
  qed
qed

text \<open>
  Claim C4, as the code has it. Take any sequence of invocations of \<^verbatim>\<open>setKey\<close> in
  which no invocation sees the clock go backwards between its two readings, and two of
  them, \<open>i\<close> before \<open>j\<close>. If \<open>j\<close> starts no more than one minute after the second
  clock reading of \<open>i\<close>, the two perform at most one file read in total. An invocation
  that reads the file refreshes. If \<open>i\<close> refreshes and every invocation between \<open>i\<close>
  and \<open>j\<close> starts no more than one minute after the second clock reading of \<open>i\<close>,
  then the window of \<open>i\<close> ends exactly one minute after that reading: when \<open>j\<close>
  starts later, \<open>j\<close> performs exactly one file read if its key path is not empty and
  none if it is empty, and it sets the deadline one minute after its own second clock
  reading (with an empty key path it also clears the key); when \<open>j\<close> starts no later,
  \<open>j\<close> performs no file read and changes nothing.
\<close>

theorem setKey_rate_limit:
  assumes "\<forall>(w, path) \<in> set calls. time_Now w 0 \<le> time_Now w 1"
    and "i < j" and "j < length calls"
  shows "(time_Now (fst (calls ! j)) 0 \<le> time_Now (fst (calls ! i)) 1 + minute \<longrightarrow>
            file_reads (setKey_run lib c calls ! i) + file_reads (setKey_run lib c calls ! j) \<le> 1)
       \<and> (file_reads (setKey_run lib c calls ! i) \<noteq> 0 \<longrightarrow> refreshes lib c calls i)
       \<and> (refreshes lib c calls i
            \<and> (\<forall>k. i < k \<and> k < j \<longrightarrow>
                  time_Now (fst (calls ! k)) 0 \<le> time_Now (fst (calls ! i)) 1 + minute) \<longrightarrow>
            (time_Now (fst (calls ! i)) 1 + minute < time_Now (fst (calls ! j)) 0 \<longrightarrow>
               file_reads (setKey_run lib c calls ! j) = (if snd (calls ! j) = [] then 0 else 1)
               \<and> update (setKey_after lib c (take (Suc j) calls)) = time_Now (fst (calls ! j)) 1 + minute
               \<and> (snd (calls ! j) = [] \<longrightarrow> key (setKey_after lib c (take (Suc j) calls)) = []))
            \<and> (time_Now (fst (calls ! j)) 0 \<le> time_Now (fst (calls ! i)) 1 + minute \<longrightarrow>
               file_reads (setKey_run lib c calls ! j) = 0
               \<and> setKey_after lib c (take (Suc j) calls) = setKey_after lib c (take j calls)))"
proof (intro conjI impI)
  assume near: "time_Now (fst (calls ! j)) 0 \<le> time_Now (fst (calls ! i)) 1 + minute"
  from assms have i: "i < length calls" by simp
  have li: "file_reads (setKey_run lib c calls ! i) \<le> 1"
    using setKey_run_nth [OF i, of lib c] file_reads_setKey_le by simp
  have lj: "file_reads (setKey_run lib c calls ! j) \<le> 1"
    using setKey_run_nth [OF assms(3), of lib c] file_reads_setKey_le by simp
  show "file_reads (setKey_run lib c calls ! i) + file_reads (setKey_run lib c calls ! j) \<le> 1"
  proof (cases "file_reads (setKey_run lib c calls ! i) = 0")
    case True
    with lj show ?thesis by simp
  next
    case False
    from deadline_after_read [OF assms False] near
    have "\<not> update (setKey_after lib c (take j calls)) < time_Now (fst (calls ! j)) 0" by simp
    then have "file_reads (setKey_run lib c calls ! j) = 0"
      using setKey_run_nth [OF assms(3), of lib c] by (simp add: file_reads_setKey)
    with li show ?thesis by simp
  qed
next
  assume "file_reads (setKey_run lib c calls ! i) \<noteq> 0"
  moreover from assms have "i < length calls" by simp
  ultimately show "refreshes lib c calls i"
    using setKey_run_nth [of i calls lib c]
    by (simp add: file_reads_setKey refreshes_def split: if_splits)
next
  assume a: "refreshes lib c calls i
            \<and> (\<forall>k. i < k \<and> k < j \<longrightarrow>
                  time_Now (fst (calls ! k)) 0 \<le> time_Now (fst (calls ! i)) 1 + minute)"
  from assms(3) have jl: "j \<le> length calls" by simp
  from a deadline_in_force [OF _ assms(2) jl, of lib c]
  have d: "update (setKey_after lib c (take j calls)) = time_Now (fst (calls ! i)) 1 + minute"
    by blast
  note run = setKey_run_nth [OF assms(3), of lib c]
  note step = setKey_after_take_Suc [OF assms(3), of lib c]
  {
    assume late: "time_Now (fst (calls ! i)) 1 + minute < time_Now (fst (calls ! j)) 0"
    with d have g: "update (setKey_after lib c (take j calls)) < time_Now (fst (calls ! j)) 0"
      by simp
    show "file_reads (setKey_run lib c calls ! j) = (if snd (calls ! j) = [] then 0 else 1)"
      using g by (simp add: run file_reads_setKey)
    show "update (setKey_after lib c (take (Suc j) calls)) = time_Now (fst (calls ! j)) 1 + minute"
      using g by (simp add: step update_setKey)
    show "key (setKey_after lib c (take (Suc j) calls)) = []" if "snd (calls ! j) = []"
      using g that setKey_empty_path_key [of "setKey_after lib c (take j calls)" "fst (calls ! j)" lib]
      by (simp add: step)
  }
  {
    assume "time_Now (fst (calls ! j)) 0 \<le> time_Now (fst (calls ! i)) 1 + minute"
    with d have g: "\<not> update (setKey_after lib c (take j calls)) < time_Now (fst (calls ! j)) 0"
      by simp
    show "file_reads (setKey_run lib c calls ! j) = 0"
      using g by (simp add: run file_reads_setKey)
    show "setKey_after lib c (take (Suc j) calls) = setKey_after lib c (take j calls)"
      using setKey_no_refresh [OF g, of lib "snd (calls ! j)"] by (simp add: step)
  }
qed

theorem setKey_rate_limit_witness:
  "list_all (\<lambda>(w, path). time_Now w 0 \<le> time_Now w 1) burst
   \<and> setKey_run go_lib meow burst = [[ReadFile ''/etc/cat/key''], [], [ReadFile ''/etc/cat/key'']]
   \<and> file_reads (setKey_run go_lib meow burst ! 0) + file_reads (setKey_run go_lib meow burst ! 1) \<le> 1
   \<and> refreshes go_lib meow burst 0
   \<and> time_Now (fst (burst ! 1)) 0 = time_Now (fst (burst ! 0)) 1 + minute
   \<and> file_reads (setKey_run go_lib meow burst ! 1) = 0
   \<and> setKey_after go_lib meow (take 2 burst) = setKey_after go_lib meow (take 1 burst)
   \<and> time_Now (fst (burst ! 2)) 0 = time_Now (fst (burst ! 0)) 1 + minute + 1
   \<and> file_reads (setKey_run go_lib meow burst ! 2) = 1
   \<and> update (setKey_after go_lib meow (take 3 burst)) = time_Now (fst (burst ! 2)) 1 + minute
   \<and> refreshes go_lib meow keyless 0
   \<and> time_Now (fst (keyless ! 1)) 0 = time_Now (fst (keyless ! 0)) 1 + minute + 1
   \<and> file_reads (setKey_run go_lib meow keyless ! 1) = 0
   \<and> key (setKey_after go_lib meow (take 2 keyless)) = []"
proof -
  have m: "\<forall>(w, path) \<in> set burst. time_Now w 0 \<le> time_Now w 1"
    by (simp add: burst_def world_up_def)
  have mk: "\<forall>(w, path) \<in> set keyless. time_Now w 0 \<le> time_Now w 1"
    by (simp add: keyless_def world_up_def)
  have m': "list_all (\<lambda>(w, path). time_Now w 0 \<le> time_Now w 1) burst"
    using m by (simp add: list_all_iff)
  have run: "setKey_run go_lib meow burst = [[ReadFile ''/etc/cat/key''], [], [ReadFile ''/etc/cat/key'']]"
    by (simp add: burst_def world_up_def realClowder_setKey_def meow_def minute_def Let_def)
  have r0: "refreshes go_lib meow burst 0"
    by (simp add: refreshes_def burst_def world_up_def meow_def)
  have rk: "refreshes go_lib meow keyless 0"
    by (simp add: refreshes_def keyless_def world_up_def meow_def)
  have t1: "time_Now (fst (burst ! 1)) 0 = time_Now (fst (burst ! 0)) 1 + minute"
    by (simp add: burst_def world_up_def)
  have t2: "time_Now (fst (burst ! 2)) 0 = time_Now (fst (burst ! 0)) 1 + minute + 1"
    by (simp add: burst_def world_up_def)
  have tk: "time_Now (fst (keyless ! 1)) 0 = time_Now (fst (keyless ! 0)) 1 + minute + 1"
    by (simp add: keyless_def world_up_def)
  have p2: "snd (burst ! 2) \<noteq> []" by (simp add: burst_def)
  have pk: "snd (keyless ! 1) = []" by (simp add: keyless_def)
  have l01: "(0::nat) < 1" "1 < length burst" and l02: "(0::nat) < 2" "2 < length burst"
    and lk: "(0::nat) < 1" "1 < length keyless"
    by (simp_all add: burst_def keyless_def)
  have near: "time_Now (fst (burst ! 1)) 0 \<le> time_Now (fst (burst ! 0)) 1 + minute"
    using t1 by simp
  have late2: "time_Now (fst (burst ! 0)) 1 + minute < time_Now (fst (burst ! 2)) 0"
    using t2 by simp
  have latek: "time_Now (fst (keyless ! 0)) 1 + minute < time_Now (fst (keyless ! 1)) 0"
    using tk by simp
  have b1: "\<forall>k. 0 < k \<and> k < (1::nat) \<longrightarrow>
      time_Now (fst (burst ! k)) 0 \<le> time_Now (fst (burst ! 0)) 1 + minute"
    by simp
  have b2: "\<forall>k. 0 < k \<and> k < (2::nat) \<longrightarrow>
      time_Now (fst (burst ! k)) 0 \<le> time_Now (fst (burst ! 0)) 1 + minute"
  proof (intro allI impI)
    fix k :: nat
    assume "0 < k \<and> k < 2"
    then have "k = 1" by simp
    with near show "time_Now (fst (burst ! k)) 0 \<le> time_Now (fst (burst ! 0)) 1 + minute" by simp
  qed
  have bk: "\<forall>k. 0 < k \<and> k < (1::nat) \<longrightarrow>
      time_Now (fst (keyless ! k)) 0 \<le> time_Now (fst (keyless ! 0)) 1 + minute"
    by simp
  note u1 = setKey_rate_limit [OF m l01, of go_lib meow]
  note u2 = setKey_rate_limit [OF m l02, of go_lib meow]
  note uk = setKey_rate_limit [OF mk lk, of go_lib meow]
  note a = u1 [THEN conjunct1, THEN mp, OF near]
  note w1 = u1 [THEN conjunct2, THEN conjunct2, THEN mp, OF conjI [OF r0 b1],
      THEN conjunct2, THEN mp, OF near]
  note w2 = u2 [THEN conjunct2, THEN conjunct2, THEN mp, OF conjI [OF r0 b2],
      THEN conjunct1, THEN mp, OF late2]
  note wk = uk [THEN conjunct2, THEN conjunct2, THEN mp, OF conjI [OF rk bk],
      THEN conjunct1, THEN mp, OF latek]
  have n2: "Suc (Suc 0) = 2" and n3: "Suc 2 = 3" by simp_all
  from m' run a r0 t1 w1 t2 w2 p2 rk tk wk pk n2 n3 show ?thesis
    by (simp del: One_nat_def)
qed

text \<open>
  The claim as stated fails for an invocation without a key path: it starts after the
  deadline has passed, resets the deadline and clears the key, and reads no file.
\<close>

theorem setKey_one_more_read_counterexample:
  "refreshes go_lib meow keyless 0
   \<and> time_Now (fst (keyless ! 0)) 1 + minute = 5 + minute
   \<and> time_Now (fst (keyless ! 1)) 0 = 6 + minute
   \<and> update (setKey_after go_lib meow (take 1 keyless)) = 5 + minute
   \<and> setKey_run go_lib meow keyless = [[], []]
   \<and> file_reads (setKey_run go_lib meow keyless ! 1) \<noteq> 1"
  by (simp add: keyless_def world_up_def realClowder_setKey_def meow_def minute_def Let_def
      file_reads_def refreshes_def)

end
